theory Spec2Isabelle
  imports Complex_Main "HOL-Library.Word" "HOL-Library.AList"
begin

section \<open>Values of the host language\<close>

text \<open>
  A JavaScript string is a sequence of 16-bit code units. Numbers are IEEE doubles in
  the program (and 32-bit floats inside a \<^verbatim>\<open>Float32Array\<close>); the model idealises them
  as real numbers, so rounding, infinities and NaN are outside it. Counters that only
  ever hold integers are \<^typ>\<open>int\<close>, lengths are \<^typ>\<open>nat\<close>.
\<close>

type_synonym code_unit = "16 word"
type_synonym jstring = "code_unit list"

definition lit :: "string \<Rightarrow> jstring" where
  "lit s = map of_char s"

text \<open>Decimal rendering of a non-negative integer, as template literals produce it.\<close>

fun decimal :: "nat \<Rightarrow> jstring" where
  "decimal n = (if n < 10 then [0x30 + of_nat n] else decimal (n div 10) @ [0x30 + of_nat (n mod 10)])"

declare decimal.simps [simp del]

datatype js_error =
    Error jstring
  | TypeError jstring
  | RangeError jstring
  | SyntaxError jstring

fun message :: "js_error \<Rightarrow> jstring" where
  "message (Error m) = m"
| "message (TypeError m) = m"
| "message (RangeError m) = m"
| "message (SyntaxError m) = m"

text \<open>A \<^verbatim>\<open>Date\<close> holds a time value in milliseconds, or is an invalid date.\<close>

datatype date = Date int | InvalidDate

text \<open>A parsed JSON value; an object lists its own properties in order, keys unique.\<close>

datatype json =
    JNull
  | JBool bool
  | JNum real
  | JStr jstring
  | JArr "json list"
  | JObj "(jstring \<times> json) list"

text \<open>
  A text handed to \<^verbatim>\<open>JSON.parse\<close> either denotes a document or makes the parser
  throw. A well-formed text is identified with the document it denotes, so
  \<^verbatim>\<open>JSON.parse(JSON.stringify(d))\<close> gives \<open>d\<close> back; this holds of the documents
  the program writes (finite numbers, strings, arrays and plain objects).
\<close>

datatype jsontext = Text json | Malformed js_error

fun JSON_parse :: "jsontext \<Rightarrow> js_error + json" where
  "JSON_parse (Text d) = Inr d"
| "JSON_parse (Malformed e) = Inl e"

definition JSON_stringify :: "json \<Rightarrow> jsontext" where
  "JSON_stringify d = Text d"

type_synonym descriptor = "real list"

text \<open>
  What the program takes from its platform without fixing it: Unicode case mapping of
  a string that is not plain ASCII, the rendering and parsing of dates, the conversions
  a typed-array constructor applies to input that is not an array of numbers, the
  wording of the engine's own error messages, and the byte size of a stored text.
  Every theorem below holds for every platform.
\<close>

record platform =
  unicodeLower :: "jstring \<Rightarrow> jstring"
  toISOString :: "int \<Rightarrow> jstring"
  newDate :: "json option \<Rightarrow> date"
  float32Coerce :: "json \<Rightarrow> js_error + descriptor"
  nonString :: "json option \<Rightarrow> jstring"
  nullReadMessage :: "jstring \<Rightarrow> jstring"
  blobSize :: "jsontext \<Rightarrow> nat"

section \<open>Identity keys\<close>

text \<open>
  \<^verbatim>\<open>name.toLowerCase().replace(/\s+/g, '_').replace(/[^a-z0-9_]/g, '')\<close>.
  On a string of ASCII code units \<^verbatim>\<open>toLowerCase\<close> maps A-Z to a-z and nothing else;
  on any other string it is the platform's Unicode mapping. The class \<^verbatim>\<open>\s\<close> is the
  white space and line terminators of ECMAScript.
\<close>

definition isAscii :: "code_unit \<Rightarrow> bool" where
  "isAscii u \<longleftrightarrow> u < 0x80"

definition asciiLower :: "code_unit \<Rightarrow> code_unit" where
  "asciiLower u = (if 0x41 \<le> u \<and> u \<le> 0x5A then u + 0x20 else u)"

definition toLowerCase :: "platform \<Rightarrow> jstring \<Rightarrow> jstring" where
  "toLowerCase P s = (if list_all isAscii s then map asciiLower s else unicodeLower P s)"

definition isWhiteSpace :: "code_unit \<Rightarrow> bool" where
  "isWhiteSpace u \<longleftrightarrow>
     (0x09 \<le> u \<and> u \<le> 0x0D) \<or> u = 0x20 \<or> u = 0xA0 \<or> u = 0x1680 \<or>
     (0x2000 \<le> u \<and> u \<le> 0x200A) \<or> u = 0x2028 \<or> u = 0x2029 \<or> u = 0x202F \<or>
     u = 0x205F \<or> u = 0x3000 \<or> u = 0xFEFF"

function replaceWhiteSpaceRuns :: "jstring \<Rightarrow> jstring" where
  "replaceWhiteSpaceRuns [] = []"
| "replaceWhiteSpaceRuns (u # us) =
     (if isWhiteSpace u then 0x5F # replaceWhiteSpaceRuns (dropWhile isWhiteSpace us)
      else u # replaceWhiteSpaceRuns us)"
  by pat_completeness auto
termination
  by (relation "measure length") (auto simp: length_dropWhile_le less_Suc_eq_le)

definition isIdChar :: "code_unit \<Rightarrow> bool" where
  "isIdChar u \<longleftrightarrow> (0x61 \<le> u \<and> u \<le> 0x7A) \<or> (0x30 \<le> u \<and> u \<le> 0x39) \<or> u = 0x5F"

definition stripNonIdChars :: "jstring \<Rightarrow> jstring" where
  "stripNonIdChars s = filter isIdChar s"

text \<open>\<^verbatim>\<open>FaceRecognitionService.generateFaceId\<close>\<close>

definition generateFaceId :: "platform \<Rightarrow> jstring \<Rightarrow> jstring" where
  "generateFaceId P name = stripNonIdChars (replaceWhiteSpaceRuns (toLowerCase P name))"

text \<open>\<^verbatim>\<open>FaceDatabase.generateFaceId\<close>, the wrapper's own copy\<close>

definition db_generateFaceId :: "platform \<Rightarrow> jstring \<Rightarrow> jstring" where
  "db_generateFaceId P name = stripNonIdChars (replaceWhiteSpaceRuns (toLowerCase P name))"

section \<open>The recognition service\<close>

record KnownFace =
  face_id :: jstring
  face_name :: jstring
  descriptors :: "descriptor list"
  addedAt :: date
  lastSeen :: "date option"

text \<open>
  A \<^verbatim>\<open>Map\<close> iterates in insertion order: it is an association list with unique keys,
  \<^verbatim>\<open>get\<close> is \<^const>\<open>map_of\<close>, \<^verbatim>\<open>set\<close> is \<^const>\<open>AList.update\<close> (in place for a key
  already present, at the end for a new one) and \<^verbatim>\<open>delete\<close> is \<^const>\<open>AList.delete\<close>.
\<close>

record FaceDatabaseType =
  faces :: "(jstring \<times> KnownFace) list"
  totalDescriptors :: int
  lastUpdated :: date

record FaceMatch =
  personName :: jstring
  confidence :: real
  distance :: real
  descriptorId :: jstring

record RecognitionResult =
  isMatch :: bool
  matched :: "FaceMatch option"
  result_confidence :: real

text \<open>
  The service after \<^verbatim>\<open>initialize()\<close> has succeeded. The three thresholds are fields
  because \<^verbatim>\<open>updateThresholds\<close> overwrites them.
\<close>

record FaceRecognitionService =
  faceDatabase :: FaceDatabaseType
  RECOGNITION_THRESHOLD :: real
  MIN_CONFIDENCE :: real
  MAX_DISTANCE :: real

text \<open>The constructor; \<open>now\<close> is what \<^verbatim>\<open>new Date()\<close> reads.\<close>

definition newFaceRecognitionService :: "int \<Rightarrow> FaceRecognitionService" where
  "newFaceRecognitionService now =
     \<lparr>faceDatabase = \<lparr>faces = [], totalDescriptors = 0, lastUpdated = Date now\<rparr>,
      RECOGNITION_THRESHOLD = 0.6, MIN_CONFIDENCE = 0.5, MAX_DISTANCE = 0.6\<rparr>"

text \<open>
  \<^verbatim>\<open>addKnownFace\<close>. The argument \<open>extraction\<close> is what \<^verbatim>\<open>extractFaceDescriptor\<close>
  resolved to for this detection: a descriptor, or \<open>None\<close> for \<^verbatim>\<open>null\<close>.
\<close>

definition addKnownFace ::
  "platform \<Rightarrow> int \<Rightarrow> jstring \<Rightarrow> descriptor option \<Rightarrow> FaceRecognitionService
     \<Rightarrow> bool \<times> FaceRecognitionService" where
  "addKnownFace P now name extraction s =
     (case extraction of
        None \<Rightarrow> (False, s)
      | Some descriptor \<Rightarrow>
          let faceId = generateFaceId P name;
              db = faceDatabase s;
              faces' =
                (case map_of (faces db) faceId of
                   Some existingFace \<Rightarrow>
                     AList.update faceId
                       (existingFace\<lparr>descriptors := descriptors existingFace @ [descriptor],
                                      lastSeen := Some (Date now)\<rparr>)
                       (faces db)
                 | None \<Rightarrow>
                     AList.update faceId
                       \<lparr>face_id = faceId, face_name = name, descriptors = [descriptor],
                        addedAt = Date now, lastSeen = Some (Date now)\<rparr>
                       (faces db))
          in (True,
              s\<lparr>faceDatabase :=
                   db\<lparr>faces := faces',
                      totalDescriptors := totalDescriptors db + 1,
                      lastUpdated := Date now\<rparr>\<rparr>))"

definition removeKnownFace ::
  "platform \<Rightarrow> int \<Rightarrow> jstring \<Rightarrow> FaceRecognitionService \<Rightarrow> bool \<times> FaceRecognitionService" where
  "removeKnownFace P now name s =
     (let faceId = generateFaceId P name;
          db = faceDatabase s
      in case map_of (faces db) faceId of
           Some face \<Rightarrow>
             (True,
              s\<lparr>faceDatabase :=
                   db\<lparr>totalDescriptors := totalDescriptors db - int (length (descriptors face)),
                      faces := AList.delete faceId (faces db),
                      lastUpdated := Date now\<rparr>\<rparr>)
         | None \<Rightarrow> (False, s))"

definition getKnownFaces :: "FaceRecognitionService \<Rightarrow> KnownFace list" where
  "getKnownFaces s = map snd (faces (faceDatabase s))"

record DatabaseStats =
  totalFaces :: nat
  stats_totalDescriptors :: int
  stats_lastUpdated :: date

definition getDatabaseStats :: "FaceRecognitionService \<Rightarrow> DatabaseStats" where
  "getDatabaseStats s =
     \<lparr>totalFaces = length (faces (faceDatabase s)),
      stats_totalDescriptors = totalDescriptors (faceDatabase s),
      stats_lastUpdated = lastUpdated (faceDatabase s)\<rparr>"

definition clearDatabase :: "int \<Rightarrow> FaceRecognitionService \<Rightarrow> FaceRecognitionService" where
  "clearDatabase now s =
     s\<lparr>faceDatabase := (faceDatabase s)\<lparr>faces := [], totalDescriptors := 0, lastUpdated := Date now\<rparr>\<rparr>"

record ThresholdOptions =
  recognitionThreshold :: "real option"
  minConfidence :: "real option"
  maxDistance :: "real option"

definition updateThresholds :: "ThresholdOptions \<Rightarrow> FaceRecognitionService \<Rightarrow> FaceRecognitionService" where
  "updateThresholds options s =
     (let s1 = (case recognitionThreshold options of
                  Some v \<Rightarrow> s\<lparr>RECOGNITION_THRESHOLD := max 0 (min 1 v)\<rparr> | None \<Rightarrow> s);
          s2 = (case minConfidence options of
                  Some v \<Rightarrow> s1\<lparr>MIN_CONFIDENCE := max 0 (min 1 v)\<rparr> | None \<Rightarrow> s1)
      in case maxDistance options of
           Some v \<Rightarrow> s2\<lparr>MAX_DISTANCE := max 0 (min 2 v)\<rparr> | None \<Rightarrow> s2)"

subsection \<open>Distance and confidence\<close>

text \<open>\<open>elemAt xs i\<close> is the indexed read \<^verbatim>\<open>xs[i]\<close>; \<open>None\<close> stands for \<^verbatim>\<open>undefined\<close>.\<close>

definition elemAt :: "'a list \<Rightarrow> nat \<Rightarrow> 'a option" where
  "elemAt xs i = (if i < length xs then Some (xs ! i) else None)"

definition addSquaredDiff :: "descriptor \<Rightarrow> descriptor \<Rightarrow> nat \<Rightarrow> real \<Rightarrow> real" where
  "addSquaredDiff desc1 desc2 i acc =
     (case (elemAt desc1 i, elemAt desc2 i) of
        (Some val1, Some val2) \<Rightarrow> (let diff = val1 - val2 in acc + diff * diff)
      | _ \<Rightarrow> acc)"

definition calculateEuclideanDistance :: "descriptor \<Rightarrow> descriptor \<Rightarrow> js_error + real" where
  "calculateEuclideanDistance desc1 desc2 =
     (if length desc1 \<noteq> length desc2
      then Inl (Error (lit ''Descriptors must have the same length''))
      else Inr (sqrt (fold (addSquaredDiff desc1 desc2) [0..<length desc1] 0)))"

text \<open>
  \<^verbatim>\<open>distanceToConfidence\<close> with the exponential of the real numbers, as it is used
  where rounding does not decide the outcome.
\<close>

definition distanceToConfidence :: "real \<Rightarrow> real" where
  "distanceToConfidence d = (let c = exp (- d * 2) in max 0 (min 1 c))"

text \<open>
  The same function in double precision. \<^verbatim>\<open>Math.exp\<close> returns a double, and
  ECMAScript leaves its last bit to the engine: the model takes the double nearest to
  the exponential, ties to the even significand. A double
  of magnitude below \<open>2 ^ 1024\<close> is a multiple of the unit \<open>2 ^ (e - 52)\<close> of its binade
  \<open>e \<ge> - 1022\<close> with at most 53 significant bits; the exponential of an argument that
  is not positive stays below the overflow threshold. Doubling a double is exact, and
  where \<^verbatim>\<open>-distance * 2\<close> overflows to \<^verbatim>\<open>-Infinity\<close> the result \<open>0\<close> of
  \<^verbatim>\<open>Math.exp\<close> is also the double nearest to the exponential.
\<close>

definition roundEven :: "real \<Rightarrow> int" where
  "roundEven z =
     (let f = \<lfloor>z\<rfloor>
      in if z - of_int f < 1 / 2 then f
         else if 1 / 2 < z - of_int f then f + 1
         else if even f then f else f + 1)"

definition binade :: "real \<Rightarrow> int" where
  "binade x = max \<lfloor>log 2 x\<rfloor> (- 1022)"

definition ulp :: "real \<Rightarrow> real" where
  "ulp x = 2 powr (of_int (binade x) - 52)"

definition roundDouble :: "real \<Rightarrow> real" where
  "roundDouble x =
     (if x = 0 then 0
      else sgn x * (of_int (roundEven (\<bar>x\<bar> / ulp \<bar>x\<bar>)) * ulp \<bar>x\<bar>))"

definition Math_exp :: "real \<Rightarrow> real" where
  "Math_exp x = roundDouble (exp x)"

definition distanceToConfidence_double :: "real \<Rightarrow> real" where
  "distanceToConfidence_double d = (let c = Math_exp (- d * 2) in max 0 (min 1 c))"

subsection \<open>Matching\<close>

text \<open>A loop whose body may throw: the first error ends it.\<close>

fun foldE :: "('a \<Rightarrow> 'b \<Rightarrow> js_error + 'b) \<Rightarrow> 'a list \<Rightarrow> 'b \<Rightarrow> js_error + 'b" where
  "foldE f [] st = Inr st"
| "foldE f (x # xs) st = (case f x st of Inl e \<Rightarrow> Inl e | Inr st' \<Rightarrow> foldE f xs st')"

text \<open>
  The scan carries \<^verbatim>\<open>bestMatch\<close> and \<^verbatim>\<open>bestDistance\<close>; for the latter \<open>None\<close> is
  the initial \<^verbatim>\<open>Infinity\<close>, which every distance is below.
\<close>

type_synonym scan = "FaceMatch option \<times> real option"

definition belowBest :: "real \<Rightarrow> real option \<Rightarrow> bool" where
  "belowBest d bestDistance = (case bestDistance of None \<Rightarrow> True | Some b \<Rightarrow> d < b)"

text \<open>The body of the inner loop of \<^verbatim>\<open>findBestMatch\<close> at index \<open>i\<close> of one identity.\<close>

definition considerDescriptor ::
  "FaceRecognitionService \<Rightarrow> descriptor \<Rightarrow> jstring \<Rightarrow> KnownFace \<Rightarrow> nat \<Rightarrow> scan \<Rightarrow> js_error + scan" where
  "considerDescriptor s descriptor faceId knownFace i st =
     (case elemAt (descriptors knownFace) i of
        None \<Rightarrow> Inr st
      | Some knownDescriptor \<Rightarrow>
          (case calculateEuclideanDistance descriptor knownDescriptor of
             Inl e \<Rightarrow> Inl e
           | Inr d \<Rightarrow>
               if belowBest d (snd st) \<and> d \<le> MAX_DISTANCE s
               then Inr (Some \<lparr>personName = face_name knownFace,
                                confidence = distanceToConfidence d,
                                distance = d,
                                descriptorId = faceId @ lit ''_'' @ decimal i\<rparr>,
                         Some d)
               else Inr st))"

definition scanFace ::
  "FaceRecognitionService \<Rightarrow> descriptor \<Rightarrow> jstring \<times> KnownFace \<Rightarrow> scan \<Rightarrow> js_error + scan" where
  "scanFace s descriptor entry st =
     (case entry of (faceId, knownFace) \<Rightarrow>
        foldE (considerDescriptor s descriptor faceId knownFace)
          [0..<length (descriptors knownFace)] st)"

definition findBestMatch :: "FaceRecognitionService \<Rightarrow> descriptor \<Rightarrow> js_error + FaceMatch option" where
  "findBestMatch s descriptor =
     (case foldE (scanFace s descriptor) (faces (faceDatabase s)) (None, None) of
        Inl e \<Rightarrow> Inl e
      | Inr (bestMatch, bestDistance) \<Rightarrow> Inr bestMatch)"

text \<open>
  \<^verbatim>\<open>recognizeFace\<close>, from the descriptor extraction on. An error thrown by the scan is
  caught and gives the no-match result. The elapsed wall-clock time that the result
  also carries is not modelled.
\<close>

definition recognizeFace :: "FaceRecognitionService \<Rightarrow> descriptor option \<Rightarrow> RecognitionResult" where
  "recognizeFace s extraction =
     (case extraction of
        None \<Rightarrow> \<lparr>isMatch = False, matched = None, result_confidence = 0\<rparr>
      | Some descriptor \<Rightarrow>
          (case findBestMatch s descriptor of
             Inl e \<Rightarrow> \<lparr>isMatch = False, matched = None, result_confidence = 0\<rparr>
           | Inr None \<Rightarrow> \<lparr>isMatch = False, matched = None, result_confidence = 0\<rparr>
           | Inr (Some m) \<Rightarrow>
               if confidence m \<ge> MIN_CONFIDENCE s \<and> distance m \<le> MAX_DISTANCE s
               then \<lparr>isMatch = True, matched = Some m, result_confidence = confidence m\<rparr>
               else \<lparr>isMatch = False, matched = None, result_confidence = confidence m\<rparr>))"

text \<open>
  To state what the scan finds: the stored embeddings in iteration order (identities in
  insertion order, each identity's embeddings by index), the Euclidean distance as a
  number, and the match record the scan builds for a candidate.
\<close>

type_synonym candidate = "jstring \<times> KnownFace \<times> nat \<times> descriptor"

definition candidates :: "FaceRecognitionService \<Rightarrow> candidate list" where
  "candidates s =
     concat (map (\<lambda>(faceId, knownFace).
                    map (\<lambda>i. (faceId, knownFace, i, descriptors knownFace ! i))
                      [0..<length (descriptors knownFace)])
               (faces (faceDatabase s)))"

definition embedding :: "candidate \<Rightarrow> descriptor" where
  "embedding c = (case c of (faceId, knownFace, i, d) \<Rightarrow> d)"

definition euclid :: "descriptor \<Rightarrow> descriptor \<Rightarrow> real" where
  "euclid a b = sqrt (\<Sum>i<length a. (a ! i - b ! i)\<^sup>2)"

definition matchOf :: "descriptor \<Rightarrow> candidate \<Rightarrow> FaceMatch" where
  "matchOf q c = (case c of (faceId, knownFace, i, d) \<Rightarrow>
     \<lparr>personName = face_name knownFace,
      confidence = distanceToConfidence (euclid q d),
      distance = euclid q d,
      descriptorId = faceId @ lit ''_'' @ decimal i\<rparr>)"

text \<open>
  The same scan over the flat list of candidates, the property that relates the state
  of the scan to the candidates seen so far, and what every match record satisfies.
\<close>

definition considerCandidate ::
  "FaceRecognitionService \<Rightarrow> descriptor \<Rightarrow> candidate \<Rightarrow> scan \<Rightarrow> js_error + scan" where
  "considerCandidate s q c st =
     (case calculateEuclideanDistance q (embedding c) of
        Inl e \<Rightarrow> Inl e
      | Inr d \<Rightarrow>
          if belowBest d (snd st) \<and> d \<le> MAX_DISTANCE s
          then Inr (Some (matchOf q c), Some d)
          else Inr st)"

definition nearestSoFar ::
  "FaceRecognitionService \<Rightarrow> descriptor \<Rightarrow> candidate list \<Rightarrow> scan \<Rightarrow> bool" where
  "nearestSoFar s q cs st \<longleftrightarrow>
     snd st = map_option distance (fst st) \<and>
     (fst st = None \<longleftrightarrow> (\<forall>c\<in>set cs. \<not> euclid q (embedding c) \<le> MAX_DISTANCE s)) \<and>
     (\<forall>m. fst st = Some m \<longrightarrow>
        (\<exists>k<length cs.
           m = matchOf q (cs ! k) \<and>
           euclid q (embedding (cs ! k)) \<le> MAX_DISTANCE s \<and>
           (\<forall>j<length cs. euclid q (embedding (cs ! k)) \<le> euclid q (embedding (cs ! j))) \<and>
           (\<forall>j<k. euclid q (embedding (cs ! k)) < euclid q (embedding (cs ! j)))))"

definition plausible :: "FaceMatch option \<Rightarrow> bool" where
  "plausible bm \<longleftrightarrow>
     (\<forall>m. bm = Some m \<longrightarrow> confidence m = distanceToConfidence (distance m) \<and> 0 \<le> distance m)"

subsection \<open>States the service can be in\<close>

text \<open>
  Every state of the store is the constructor's, or comes from such a state by one of
  the public operations that write to it.
\<close>

inductive reachable :: "platform \<Rightarrow> FaceRecognitionService \<Rightarrow> bool" for P :: platform where
  constructed: "reachable P (newFaceRecognitionService now)"
| added: "reachable P s \<Longrightarrow> reachable P (snd (addKnownFace P now name extraction s))"
| removed: "reachable P s \<Longrightarrow> reachable P (snd (removeKnownFace P now name s))"
| cleared: "reachable P s \<Longrightarrow> reachable P (clearDatabase now s)"
| configured: "reachable P s \<Longrightarrow> reachable P (updateThresholds options s)"

text \<open>The sum of \<^verbatim>\<open>descriptors.length\<close> over the entries of a map of faces.\<close>

definition countDescriptors :: "(jstring \<times> KnownFace) list \<Rightarrow> nat" where
  "countDescriptors fs = (\<Sum>(k, f)\<leftarrow>fs. length (descriptors f))"

fun validDate :: "date \<Rightarrow> bool" where
  "validDate (Date t) = True"
| "validDate InvalidDate = False"

definition validFace :: "jstring \<times> KnownFace \<Rightarrow> bool" where
  "validFace e = (case e of (k, f) \<Rightarrow>
     face_id f = k \<and> validDate (addedAt f) \<and>
     (case lastSeen f of None \<Rightarrow> True | Some d \<Rightarrow> validDate d))"

definition storeInvariant :: "FaceDatabaseType \<Rightarrow> bool" where
  "storeInvariant db \<longleftrightarrow>
     distinct (map fst (faces db)) \<and>
     totalDescriptors db = int (countDescriptors (faces db)) \<and>
     list_all validFace (faces db) \<and>
     validDate (lastUpdated db)"

text \<open>
  A platform to run the model on concrete inputs: it leaves other than ASCII letters
  alone, writes a date as its milliseconds in decimal and reads such a string back.
\<close>

definition stubPlatform :: platform where
  "stubPlatform =
     \<lparr>unicodeLower = (\<lambda>s. s),
      toISOString = (\<lambda>t. decimal (nat t)),
      newDate = (\<lambda>v. case v of
                   Some (JStr s) \<Rightarrow>
                     if s \<noteq> [] \<and> list_all (\<lambda>u. 0x30 \<le> u \<and> u \<le> 0x39) s
                     then Date (int (fold (\<lambda>u n. 10 * n + unat (u - 0x30)) s 0))
                     else InvalidDate
                 | _ \<Rightarrow> InvalidDate),
      float32Coerce = (\<lambda>v. Inl (TypeError (lit ''invalid typed array input''))),
      nonString = (\<lambda>v. lit ''undefined''),
      nullReadMessage = (\<lambda>k. lit ''Cannot read properties of null''),
      blobSize = (\<lambda>t. 0)\<rparr>"

section \<open>The database wrapper\<close>

text \<open>
  The wrapper holds its own view \<open>database\<close> of the store, the recognition service
  whose store is the authoritative one, and the item kept in \<^verbatim>\<open>localStorage\<close> under
  \<^verbatim>\<open>STORAGE_KEY\<close> (\<open>None\<close> when there is none). Writing the item is taken to succeed.
  Every public operation reads the clock once (\<open>now\<close>). The wrapper reads its view
  only right after refilling it from the service, so the face objects that the two maps
  share in the program are kept as values here.
\<close>

record FaceDatabase =
  database :: FaceDatabaseType
  faceRecognitionService :: FaceRecognitionService
  localStorage :: "jsontext option"

definition MAX_DESCRIPTORS_PER_FACE :: nat where
  "MAX_DESCRIPTORS_PER_FACE = 10"

definition MIN_TRAINING_SAMPLES :: nat where
  "MIN_TRAINING_SAMPLES = 3"

definition syncFromRecognitionService :: "FaceDatabase \<Rightarrow> FaceDatabase" where
  "syncFromRecognitionService a =
     (let knownFaces = getKnownFaces (faceRecognitionService a);
          stats = getDatabaseStats (faceRecognitionService a)
      in a\<lparr>database :=
             \<lparr>faces = fold (\<lambda>face m. AList.update (face_id face) face m) knownFaces [],
              totalDescriptors = stats_totalDescriptors stats,
              lastUpdated = stats_lastUpdated stats\<rparr>\<rparr>)"

text \<open>
  \<^verbatim>\<open>syncToRecognitionService\<close> clears the service and writes nothing back: the source
  notes that filling the service from stored embeddings is not implemented.
\<close>

definition syncToRecognitionService :: "int \<Rightarrow> FaceDatabase \<Rightarrow> FaceDatabase" where
  "syncToRecognitionService now a =
     a\<lparr>faceRecognitionService := clearDatabase now (faceRecognitionService a)\<rparr>"

subsection \<open>Export\<close>

definition bindE :: "'e + 'a \<Rightarrow> ('a \<Rightarrow> 'e + 'b) \<Rightarrow> 'e + 'b" where
  "bindE x f = (case x of Inl e \<Rightarrow> Inl e | Inr v \<Rightarrow> f v)"

fun mapE :: "('a \<Rightarrow> 'e + 'b) \<Rightarrow> 'a list \<Rightarrow> 'e + 'b list" where
  "mapE f [] = Inr []"
| "mapE f (x # xs) = bindE (f x) (\<lambda>y. bindE (mapE f xs) (\<lambda>ys. Inr (y # ys)))"

text \<open>\<^verbatim>\<open>toISOString\<close> throws a \<^verbatim>\<open>RangeError\<close> on an invalid date.\<close>

definition encodeDate :: "platform \<Rightarrow> date \<Rightarrow> js_error + json" where
  "encodeDate P d =
     (case d of
        Date t \<Rightarrow> Inr (JStr (toISOString P t))
      | InvalidDate \<Rightarrow> Inl (RangeError (lit ''Invalid time value'')))"

text \<open>
  One entry of the exported \<^verbatim>\<open>faces\<close> array. \<^verbatim>\<open>JSON.stringify\<close> leaves out a
  property whose value is \<^verbatim>\<open>undefined\<close>, as \<^verbatim>\<open>lastSeen\<close> is for a face without one.
\<close>

definition encodeFace :: "platform \<Rightarrow> jstring \<times> KnownFace \<Rightarrow> js_error + json" where
  "encodeFace P entry =
     (case entry of (k, face) \<Rightarrow>
        bindE (encodeDate P (addedAt face)) (\<lambda>added.
        bindE (case lastSeen face of
                 None \<Rightarrow> Inr []
               | Some d \<Rightarrow> bindE (encodeDate P d) (\<lambda>seen. Inr [(lit ''lastSeen'', seen)])) (\<lambda>seen.
          Inr (JObj ([(lit ''id'', JStr k),
                      (lit ''name'', JStr (face_name face)),
                      (lit ''descriptors'', JArr (map (\<lambda>desc. JArr (map JNum desc)) (descriptors face))),
                      (lit ''addedAt'', added)] @ seen)))))"

definition exportDatabase ::
  "platform \<Rightarrow> int \<Rightarrow> FaceDatabase \<Rightarrow> (js_error + jsontext) \<times> FaceDatabase" where
  "exportDatabase P now a =
     (let a1 = syncFromRecognitionService a;
          db = database a1
      in (bindE (mapE (encodeFace P) (faces db)) (\<lambda>fs.
          bindE (encodeDate P (lastUpdated db)) (\<lambda>updated.
            Inr (JSON_stringify
                   (JObj [(lit ''faces'', JArr fs),
                          (lit ''totalDescriptors'', JNum (of_int (totalDescriptors db))),
                          (lit ''lastUpdated'', updated),
                          (lit ''exportedAt'', JStr (toISOString P now))])))),
          a1))"

text \<open>\<^verbatim>\<open>saveToStorage\<close> swallows what the export throws.\<close>

definition saveToStorage :: "platform \<Rightarrow> int \<Rightarrow> FaceDatabase \<Rightarrow> FaceDatabase" where
  "saveToStorage P now a =
     (case exportDatabase P now a of
        (Inl e, a1) \<Rightarrow> a1
      | (Inr serializedData, a1) \<Rightarrow> a1\<lparr>localStorage := Some serializedData\<rparr>)"

text \<open>\<^verbatim>\<open>FaceDatabase.clearDatabase\<close>\<close>

definition db_clearDatabase :: "platform \<Rightarrow> int \<Rightarrow> FaceDatabase \<Rightarrow> FaceDatabase" where
  "db_clearDatabase P now a =
     saveToStorage P now
       (a\<lparr>faceRecognitionService := clearDatabase now (faceRecognitionService a),
          database := \<lparr>faces = [], totalDescriptors = 0, lastUpdated = Date now\<rparr>\<rparr>)"

subsection \<open>Statistics and listing\<close>

definition getStorageSize :: "platform \<Rightarrow> FaceDatabase \<Rightarrow> nat" where
  "getStorageSize P a = (case localStorage a of Some storedData \<Rightarrow> blobSize P storedData | None \<Rightarrow> 0)"

record Statistics =
  st_totalFaces :: nat
  st_totalDescriptors :: int
  wellTrainedFaces :: nat
  averageDescriptorsPerFace :: real
  st_lastUpdated :: date
  storageSize :: nat

definition getStatistics :: "platform \<Rightarrow> FaceDatabase \<Rightarrow> Statistics \<times> FaceDatabase" where
  "getStatistics P a =
     (let a1 = syncFromRecognitionService a;
          fs = map snd (faces (database a1));
          wellTrained = length (filter (\<lambda>face. length (descriptors face) \<ge> MIN_TRAINING_SAMPLES) fs);
          averageDescriptors =
            (if length fs > 0
             then real (fold (\<lambda>face acc. acc + length (descriptors face)) fs 0) / real (length fs)
             else 0)
      in (\<lparr>st_totalFaces = length (faces (database a1)),
           st_totalDescriptors = totalDescriptors (database a1),
           wellTrainedFaces = wellTrained,
           averageDescriptorsPerFace = of_int \<lfloor>averageDescriptors * 100 + 1 / 2\<rfloor> / 100,
           st_lastUpdated = lastUpdated (database a1),
           storageSize = getStorageSize P a1\<rparr>,
          a1))"

text \<open>
  \<^verbatim>\<open>FaceDatabase.getKnownFaces\<close>: each face with \<^verbatim>\<open>isWellTrained\<close> and
  \<^verbatim>\<open>trainingProgress\<close>.
\<close>

definition db_getKnownFaces :: "FaceDatabase \<Rightarrow> (KnownFace \<times> bool \<times> real) list \<times> FaceDatabase" where
  "db_getKnownFaces a =
     (let a1 = syncFromRecognitionService a
      in (map (\<lambda>face.
                 (face,
                  length (descriptors face) \<ge> MIN_TRAINING_SAMPLES,
                  min (real (length (descriptors face)) / real MIN_TRAINING_SAMPLES) 1))
            (map snd (faces (database a1))),
          a1))"

subsection \<open>Import\<close>

text \<open>
  Reading a property of a parsed value throws on \<^verbatim>\<open>null\<close>; an object gives its own
  property, or \<^verbatim>\<open>undefined\<close> (\<open>None\<close>); so does any other value for the properties
  the import reads (\<^verbatim>\<open>faces\<close>, \<^verbatim>\<open>id\<close>, \<^verbatim>\<open>name\<close>, \<^verbatim>\<open>descriptors\<close>,
  \<^verbatim>\<open>addedAt\<close>, \<^verbatim>\<open>lastSeen\<close>).
\<close>

definition property :: "platform \<Rightarrow> json \<Rightarrow> jstring \<Rightarrow> js_error + json option" where
  "property P v k =
     (case v of
        JNull \<Rightarrow> Inl (TypeError (nullReadMessage P k))
      | JObj kvs \<Rightarrow> Inr (map_of kvs k)
      | _ \<Rightarrow> Inr None)"

fun truthy :: "json option \<Rightarrow> bool" where
  "truthy None = False"
| "truthy (Some JNull) = False"
| "truthy (Some (JBool b)) = b"
| "truthy (Some (JNum r)) = (r \<noteq> 0)"
| "truthy (Some (JStr s)) = (s \<noteq> [])"
| "truthy (Some (JArr xs)) = True"
| "truthy (Some (JObj kvs)) = True"

fun isArray :: "json option \<Rightarrow> bool" where
  "isArray (Some (JArr xs)) = True"
| "isArray v = False"

fun elements :: "json option \<Rightarrow> json list" where
  "elements (Some (JArr xs)) = xs"
| "elements v = []"

fun isNum :: "json \<Rightarrow> bool" where
  "isNum (JNum r) = True"
| "isNum v = False"

fun numOf :: "json \<Rightarrow> real" where
  "numOf (JNum r) = r"
| "numOf v = 0"

text \<open>
  \<^verbatim>\<open>new Float32Array(desc)\<close>: an array of numbers gives those numbers; what any other
  value gives (a length, coerced elements, a thrown \<^verbatim>\<open>RangeError\<close>) is the platform's.
\<close>

definition float32Array :: "platform \<Rightarrow> json \<Rightarrow> js_error + descriptor" where
  "float32Array P desc =
     (case desc of
        JArr xs \<Rightarrow> if list_all isNum xs then Inr (map numOf xs) else float32Coerce P desc
      | _ \<Rightarrow> float32Coerce P desc)"

text \<open>
  \<^verbatim>\<open>faceData.descriptors.map(desc => new Float32Array(desc))\<close>: only an array has a
  callable \<^verbatim>\<open>map\<close>.
\<close>

definition mapDescriptors :: "platform \<Rightarrow> json option \<Rightarrow> js_error + descriptor list" where
  "mapDescriptors P v =
     (case v of
        Some (JArr descs) \<Rightarrow> mapE (float32Array P) descs
      | Some JNull \<Rightarrow> Inl (TypeError (nullReadMessage P (lit ''map'')))
      | None \<Rightarrow> Inl (TypeError (nullReadMessage P (lit ''map'')))
      | _ \<Rightarrow> Inl (TypeError (lit ''faceData.descriptors.map is not a function'')))"

text \<open>
  The fields \<^verbatim>\<open>id\<close> and \<^verbatim>\<open>name\<close> are declared strings. The program stores whatever
  the document holds; for a value that is not a string the typed record keeps the
  platform's \<open>nonString\<close> of it. No operation reads an imported face back before the
  view is refilled from the service.
\<close>

definition asString :: "platform \<Rightarrow> json option \<Rightarrow> jstring" where
  "asString P v = (case v of Some (JStr s) \<Rightarrow> s | _ \<Rightarrow> nonString P v)"

text \<open>The body of the \<^verbatim>\<open>try\<close> around one entry: the map key and the face it builds.\<close>

definition readFace :: "platform \<Rightarrow> json \<Rightarrow> js_error + (jstring \<times> KnownFace)" where
  "readFace P faceData =
     bindE (property P faceData (lit ''id'')) (\<lambda>idv.
     bindE (property P faceData (lit ''name'')) (\<lambda>namev.
     bindE (property P faceData (lit ''descriptors'')) (\<lambda>descsv.
     bindE (mapDescriptors P descsv) (\<lambda>descs.
     bindE (property P faceData (lit ''addedAt'')) (\<lambda>addedv.
     bindE (property P faceData (lit ''lastSeen'')) (\<lambda>seenv.
       Inr (asString P idv,
            \<lparr>face_id = asString P idv,
             face_name = asString P namev,
             descriptors = descs,
             addedAt = newDate P addedv,
             lastSeen = (if truthy seenv then Some (newDate P seenv) else None)\<rparr>)))))))"

text \<open>
  An entry is imported, or skipped when its \<^verbatim>\<open>try\<close> body throws. The handler of that
  \<^verbatim>\<open>try\<close> reads \<^verbatim>\<open>faceData.name\<close> for its warning, which throws again when the
  entry is \<^verbatim>\<open>null\<close>: that error leaves the loop.
\<close>

datatype entry_outcome = Imported jstring KnownFace | Skipped | Rethrown js_error

definition decodeFace :: "platform \<Rightarrow> json \<Rightarrow> entry_outcome" where
  "decodeFace P faceData =
     (case readFace P faceData of
        Inr (k, face) \<Rightarrow> Imported k face
      | Inl e \<Rightarrow>
          (case property P faceData (lit ''name'') of
             Inl e' \<Rightarrow> Rethrown e'
           | Inr v \<Rightarrow> Skipped))"

fun importFaces ::
  "platform \<Rightarrow> json list \<Rightarrow> (jstring \<times> KnownFace) list \<Rightarrow> nat \<Rightarrow> nat
     \<Rightarrow> (js_error \<times> (jstring \<times> KnownFace) list) + ((jstring \<times> KnownFace) list \<times> nat \<times> nat)" where
  "importFaces P [] m fi di = Inr (m, fi, di)"
| "importFaces P (faceData # rest) m fi di =
     (case decodeFace P faceData of
        Imported k face \<Rightarrow>
          importFaces P rest (AList.update k face m) (fi + 1) (di + length (descriptors face))
      | Skipped \<Rightarrow> importFaces P rest m fi di
      | Rethrown e \<Rightarrow> Inl (e, m))"

record ImportOutcome =
  success :: bool
  facesImported :: nat
  descriptorsImported :: nat
  import_message :: jstring

definition importFailed :: "js_error \<Rightarrow> ImportOutcome" where
  "importFailed e =
     \<lparr>success = False, facesImported = 0, descriptorsImported = 0,
      import_message = lit ''Import failed: '' @ message e\<rparr>"

definition importDatabase ::
  "platform \<Rightarrow> int \<Rightarrow> jsontext \<Rightarrow> FaceDatabase \<Rightarrow> ImportOutcome \<times> FaceDatabase" where
  "importDatabase P now jsonData a =
     (case JSON_parse jsonData of
        Inl e \<Rightarrow> (importFailed e, a)
      | Inr importData \<Rightarrow>
          (case property P importData (lit ''faces'') of
             Inl e \<Rightarrow> (importFailed e, a)
           | Inr fs \<Rightarrow>
               if \<not> truthy fs \<or> \<not> isArray fs
               then (\<lparr>success = False, facesImported = 0, descriptorsImported = 0,
                      import_message = lit ''Invalid database format''\<rparr>, a)
               else
                 (let a1 = db_clearDatabase P now a
                  in case importFaces P (elements fs) (faces (database a1)) 0 0 of
                       Inl (e, m) \<Rightarrow>
                         (importFailed e, a1\<lparr>database := (database a1)\<lparr>faces := m\<rparr>\<rparr>)
                     | Inr (m, fi, di) \<Rightarrow>
                         (let a2 = a1\<lparr>database :=
                                        \<lparr>faces = m, totalDescriptors = int di,
                                         lastUpdated = Date now\<rparr>\<rparr>;
                              a3 = syncToRecognitionService now a2;
                              a4 = saveToStorage P now a3
                          in (\<lparr>success = True, facesImported = fi, descriptorsImported = di,
                               import_message =
                                 lit ''Successfully imported '' @ decimal fi @ lit '' faces with '' @
                                 decimal di @ lit '' descriptors''\<rparr>,
                              a4)))))"

text \<open>The constructor: an empty view, then \<^verbatim>\<open>loadFromStorage\<close>.\<close>

definition loadFromStorage :: "platform \<Rightarrow> int \<Rightarrow> FaceDatabase \<Rightarrow> FaceDatabase" where
  "loadFromStorage P now a =
     (case localStorage a of
        Some storedData \<Rightarrow> snd (importDatabase P now storedData a)
      | None \<Rightarrow> a)"

definition newFaceDatabase ::
  "platform \<Rightarrow> int \<Rightarrow> FaceRecognitionService \<Rightarrow> jsontext option \<Rightarrow> FaceDatabase" where
  "newFaceDatabase P now svc stored =
     loadFromStorage P now
       \<lparr>database = \<lparr>faces = [], totalDescriptors = 0, lastUpdated = Date now\<rparr>,
        faceRecognitionService = svc,
        localStorage = stored\<rparr>"

subsection \<open>Training\<close>

text \<open>
  \<^verbatim>\<open>trainFace\<close> gets one entry per element of \<^verbatim>\<open>faceDetections\<close>: \<open>None\<close> for a
  slot the loop skips as falsy, otherwise what \<^verbatim>\<open>extractFaceDescriptor\<close> resolves to
  when \<^verbatim>\<open>addKnownFace\<close> runs for that detection. The progress callback is not
  modelled.
\<close>

record TrainingOutcome =
  train_success :: bool
  samplesAdded :: nat
  totalSamples :: nat
  train_message :: jstring

text \<open>
  One pass of the loop body for a detection that is present: the add, the refill of the
  view, and whether the limit check breaks out of the loop.
\<close>

definition trainStep ::
  "platform \<Rightarrow> int \<Rightarrow> jstring \<Rightarrow> jstring \<Rightarrow> descriptor option \<Rightarrow> nat \<Rightarrow> FaceDatabase
     \<Rightarrow> bool \<times> nat \<times> FaceDatabase" where
  "trainStep P now name faceId extraction n a =
     (let r = addKnownFace P now name extraction (faceRecognitionService a);
          n' = (if fst r then n + 1 else n);
          a' = syncFromRecognitionService (a\<lparr>faceRecognitionService := snd r\<rparr>)
      in (case map_of (faces (database a')) faceId of
            Some existingFace \<Rightarrow> length (descriptors existingFace) \<ge> MAX_DESCRIPTORS_PER_FACE
          | None \<Rightarrow> False,
          n', a'))"

fun trainLoop ::
  "platform \<Rightarrow> int \<Rightarrow> jstring \<Rightarrow> jstring \<Rightarrow> descriptor option option list \<Rightarrow> nat \<Rightarrow> FaceDatabase
     \<Rightarrow> nat \<times> FaceDatabase" where
  "trainLoop P now name faceId [] n a = (n, a)"
| "trainLoop P now name faceId (None # rest) n a = trainLoop P now name faceId rest n a"
| "trainLoop P now name faceId (Some extraction # rest) n a =
     (case trainStep P now name faceId extraction n a of
        (True, n', a') \<Rightarrow> (n', a')
      | (False, n', a') \<Rightarrow> trainLoop P now name faceId rest n' a')"

definition trainFace ::
  "platform \<Rightarrow> int \<Rightarrow> jstring \<Rightarrow> descriptor option option list \<Rightarrow> FaceDatabase
     \<Rightarrow> TrainingOutcome \<times> FaceDatabase" where
  "trainFace P now name faceDetections a =
     (if faceDetections = []
      then (\<lparr>train_success = False, samplesAdded = 0, totalSamples = 0,
             train_message = lit ''No face detections provided for training''\<rparr>, a)
      else
        (let faceId = db_generateFaceId P name;
             r = trainLoop P now name faceId faceDetections 0 a;
             added = fst r;
             a2 = saveToStorage P now (syncFromRecognitionService (snd r));
             total = (case map_of (faces (database a2)) faceId of
                        Some face \<Rightarrow> length (descriptors face) | None \<Rightarrow> 0);
             isWellTrained = total \<ge> MIN_TRAINING_SAMPLES
         in (\<lparr>train_success = added > 0, samplesAdded = added, totalSamples = total,
              train_message =
                (if isWellTrained
                 then lit ''Successfully trained '' @ name @ lit '' with '' @ decimal total @
                      lit '' samples''
                 else lit ''Added '' @ decimal added @ lit '' samples for '' @ name @
                      lit ''. Need '' @ decimal (MIN_TRAINING_SAMPLES - total) @
                      lit '' more for optimal recognition'')\<rparr>,
             a2)))"

text \<open>\<^verbatim>\<open>addTrainingSample\<close>: one add, with no limit check.\<close>

definition addTrainingSample ::
  "platform \<Rightarrow> int \<Rightarrow> jstring \<Rightarrow> descriptor option \<Rightarrow> FaceDatabase \<Rightarrow> bool \<times> FaceDatabase" where
  "addTrainingSample P now name extraction a =
     (let r = addKnownFace P now name extraction (faceRecognitionService a);
          a1 = a\<lparr>faceRecognitionService := snd r\<rparr>
      in if fst r then (True, saveToStorage P now (syncFromRecognitionService a1))
         else (False, a1))"

text \<open>Concrete stores: one identity \<open>Ann\<close> holding a single embedding.\<close>

definition oneFaceService :: FaceRecognitionService where
  "oneFaceService =
     snd (addKnownFace stubPlatform 1 (lit ''Ann'') (Some [0]) (newFaceRecognitionService 0))"

text \<open>A second identity \<open>Bob\<close>, added after \<open>Ann\<close>.\<close>

definition twoFaceService :: FaceRecognitionService where
  "twoFaceService = snd (addKnownFace stubPlatform 2 (lit ''Bob'') (Some [1]) oneFaceService)"

text \<open>\<open>Ann\<close> with an embedding of length one, then \<open>Bob\<close> with one of length two.\<close>

definition mixedLengthService :: FaceRecognitionService where
  "mixedLengthService =
     snd (addKnownFace stubPlatform 2 (lit ''Bob'') (Some [0, 0]) oneFaceService)"

text \<open>Wrappers constructed over an empty service and over the service holding \<open>Ann\<close>.\<close>

definition emptyApp :: FaceDatabase where
  "emptyApp = newFaceDatabase stubPlatform 0 (newFaceRecognitionService 0) None"

definition oneFaceApp :: FaceDatabase where
  "oneFaceApp = newFaceDatabase stubPlatform 1 oneFaceService None"

text \<open>Whether a parsed document has a \<^verbatim>\<open>faces\<close> property that is an array.\<close>

definition hasFacesArray :: "json \<Rightarrow> bool" where
  "hasFacesArray doc =
     (case doc of
        JObj kvs \<Rightarrow> (case map_of kvs (lit ''faces'') of Some (JArr xs) \<Rightarrow> True | _ \<Rightarrow> False)
      | _ \<Rightarrow> False)"

text \<open>
  The round trip of the consumer: \<^verbatim>\<open>exportDatabase()\<close>, then \<^verbatim>\<open>clearDatabase()\<close>, then
  \<^verbatim>\<open>importDatabase\<close> of the exported text, at the clock readings \<open>t1\<close>, \<open>t2\<close>, \<open>t3\<close>.
\<close>

definition exportClearImport ::
  "platform \<Rightarrow> int \<Rightarrow> int \<Rightarrow> int \<Rightarrow> FaceDatabase \<Rightarrow> (js_error + ImportOutcome) \<times> FaceDatabase" where
  "exportClearImport P t1 t2 t3 a =
     (case exportDatabase P t1 a of
        (Inl e, a1) \<Rightarrow> (Inl e, a1)
      | (Inr exported, a1) \<Rightarrow>
          (let a2 = db_clearDatabase P t2 a1;
               r = importDatabase P t3 exported a2
           in (Inr (fst r), snd r)))"

text \<open>The number of embeddings the service stores under an id.\<close>

definition storedCount :: "FaceRecognitionService \<Rightarrow> jstring \<Rightarrow> nat" where
  "storedCount s k =
     (case map_of (faces (faceDatabase s)) k of Some face \<Rightarrow> length (descriptors face) | None \<Rightarrow> 0)"

text \<open>The wrapper after training \<open>Ann\<close>, until then unknown, with ten good samples.\<close>

definition fullyTrainedApp :: FaceDatabase where
  "fullyTrainedApp =
     snd (trainFace stubPlatform 1 (lit ''Ann'') (replicate 10 (Some (Some [0]))) emptyApp)"

section \<open>Identity keys are fixed points of normalisation\<close>

lemma isIdChar_isAscii: "isIdChar u \<Longrightarrow> isAscii u"
  unfolding isIdChar_def isAscii_def by (auto simp: word_le_def word_less_def)

lemma isIdChar_asciiLower: "isIdChar u \<Longrightarrow> asciiLower u = u"
  unfolding isIdChar_def asciiLower_def by (auto simp: word_le_def word_less_def)

lemma isIdChar_not_isWhiteSpace: "isIdChar u \<Longrightarrow> \<not> isWhiteSpace u"
  unfolding isIdChar_def isWhiteSpace_def by (auto simp: word_le_def word_less_def)

lemma replaceWhiteSpaceRuns_no_space:
  "\<forall>u\<in>set s. \<not> isWhiteSpace u \<Longrightarrow> replaceWhiteSpaceRuns s = s"
  by (induction s) auto

lemma normalise_id_chars:
  assumes "list_all isIdChar s"
  shows "stripNonIdChars (replaceWhiteSpaceRuns (toLowerCase P s)) = s"
proof -
  have ascii: "list_all isAscii s"
    using assms by (simp add: list_all_iff isIdChar_isAscii)
  have lower: "map asciiLower s = s"
    using assms by (simp add: list_all_iff isIdChar_asciiLower map_idI)
  have spaces: "replaceWhiteSpaceRuns s = s"
    using assms by (intro replaceWhiteSpaceRuns_no_space) (simp add: list_all_iff isIdChar_not_isWhiteSpace)
  have strip: "filter isIdChar s = s"
    using assms by (simp add: list_all_iff)
  show ?thesis
    by (simp add: toLowerCase_def ascii lower spaces strip stripNonIdChars_def)
qed

lemma stripNonIdChars_all: "list_all isIdChar (stripNonIdChars s)"
  by (simp add: stripNonIdChars_def list_all_iff)

lemma generateFaceId_Ann: "generateFaceId P (lit ''Ann'') = lit ''ann''"
  by (simp add: generateFaceId_def lit_def toLowerCase_def isAscii_def asciiLower_def
      isWhiteSpace_def stripNonIdChars_def isIdChar_def)

text \<open>
  C10. Normalising a name twice gives what normalising it once gives, for every string
  and whatever the platform's Unicode case mapping is; this holds of the service's
  function and of the wrapper's, and the two are the same function.
\<close>

theorem generateFaceId_idempotent:
  "generateFaceId P (generateFaceId P s) = generateFaceId P s \<and>
   db_generateFaceId P (db_generateFaceId P s) = db_generateFaceId P s \<and>
   db_generateFaceId P s = generateFaceId P s"
  unfolding generateFaceId_def db_generateFaceId_def
  by (simp add: normalise_id_chars stripNonIdChars_all)

theorem generateFaceId_idempotent_witness:
  "generateFaceId stubPlatform (generateFaceId stubPlatform (lit ''Jane  Doe-3'')) = lit ''jane_doe3''"
proof -
  have "generateFaceId stubPlatform (lit ''Jane  Doe-3'') = lit ''jane_doe3''"
    by (simp add: generateFaceId_def lit_def toLowerCase_def isAscii_def asciiLower_def
        isWhiteSpace_def stripNonIdChars_def isIdChar_def)
  with generateFaceId_idempotent [of stubPlatform "lit ''Jane  Doe-3''"] show ?thesis
    by simp
qed

section \<open>Distance and confidence\<close>

lemma fold_addSquaredDiff:
  "length a = length b \<Longrightarrow> n \<le> length a \<Longrightarrow>
   fold (addSquaredDiff a b) [0..<n] acc = acc + (\<Sum>i<n. (a ! i - b ! i)\<^sup>2)"
  by (induction n arbitrary: acc)
     (auto simp: addSquaredDiff_def elemAt_def power2_eq_square Let_def)

lemma distance_equal_length:
  "length a = length b \<Longrightarrow>
   calculateEuclideanDistance a b = Inr (sqrt (\<Sum>i<length a. (a ! i - b ! i)\<^sup>2))"
  by (simp add: calculateEuclideanDistance_def fold_addSquaredDiff)

text \<open>
  C7. On two embeddings of unequal length the distance computation throws the
  length-mismatch error. On two of equal length it returns the square root of the sum
  of the squared differences of all components: the guard against \<^verbatim>\<open>undefined\<close>
  inside the loop never skips one.
\<close>

theorem calculateEuclideanDistance_mismatch:
  "(length a \<noteq> length b \<longrightarrow>
      calculateEuclideanDistance a b = Inl (Error (lit ''Descriptors must have the same length''))) \<and>
   (length a = length b \<longrightarrow>
      calculateEuclideanDistance a b = Inr (sqrt (\<Sum>i<length a. (a ! i - b ! i)\<^sup>2)))"
  by (simp add: calculateEuclideanDistance_def fold_addSquaredDiff)

theorem calculateEuclideanDistance_mismatch_witness:
  "length [0::real] \<noteq> length [1, 2::real] \<and>
   calculateEuclideanDistance [0] [1, 2] = Inl (Error (lit ''Descriptors must have the same length'')) \<and>
   length [0, 3::real] = length [4, 0::real] \<and>
   calculateEuclideanDistance [0, 3] [4, 0] = Inr 5"
proof -
  have "sqrt (\<Sum>i<length [0, 3::real]. ([0, 3::real] ! i - [4, 0] ! i)\<^sup>2) = 5"
    by (simp add: lessThan_Suc numeral_2_eq_2 real_sqrt_unique)
  with calculateEuclideanDistance_mismatch [of "[0]" "[1, 2]"]
       calculateEuclideanDistance_mismatch [of "[0, 3]" "[4, 0]"]
  show ?thesis by simp
qed

subsection \<open>Confidence in double precision\<close>

lemma two_powr_shift: "(2::real) powr a * 2 powr (t - b) = 2 powr (t + (a - b))"
proof -
  have "(2::real) powr a * 2 powr (t - b) = 2 powr (a + (t - b))"
    by (simp only: powr_add)
  also have "a + (t - b) = t + (a - b)" by simp
  finally show ?thesis .
qed

lemma roundEven_mono: "z \<le> w \<Longrightarrow> roundEven z \<le> roundEven w"
proof -
  assume zw: "z \<le> w"
  then have fl: "\<lfloor>z\<rfloor> \<le> \<lfloor>w\<rfloor>" by (rule floor_mono)
  have lo: "\<lfloor>v\<rfloor> \<le> roundEven v" and hi: "roundEven v \<le> \<lfloor>v\<rfloor> + 1" for v
    by (auto simp: roundEven_def Let_def)
  show ?thesis
  proof (cases "\<lfloor>z\<rfloor> < \<lfloor>w\<rfloor>")
    case True
    with hi [of z] lo [of w] show ?thesis by linarith
  next
    case False
    with fl have eq: "\<lfloor>z\<rfloor> = \<lfloor>w\<rfloor>" by simp
    with zw show ?thesis by (auto simp: roundEven_def Let_def)
  qed
qed

lemma roundEven_of_int: "roundEven (of_int n) = n"
  by (simp add: roundEven_def)

lemma roundEven_bounds: "of_int a \<le> z \<Longrightarrow> z \<le> of_int b \<Longrightarrow> a \<le> roundEven z \<and> roundEven z \<le> b"
  using roundEven_mono [of "of_int a" z] roundEven_mono [of z "of_int b"] by (simp add: roundEven_of_int)

lemma binade_mono: "0 < x \<Longrightarrow> x \<le> y \<Longrightarrow> binade x \<le> binade y"
  unfolding binade_def by (intro max.mono floor_mono) (simp_all add: log_le_cancel_iff)

lemma below_next: "0 < x \<Longrightarrow> x < 2 powr (of_int (binade x) + 1)"
proof -
  assume x: "0 < x"
  have "log 2 x < of_int \<lfloor>log 2 x\<rfloor> + 1" by linarith
  also have "\<dots> \<le> of_int (binade x) + 1" by (simp add: binade_def)
  finally have "log 2 x < of_int (binade x) + 1" .
  with x show ?thesis by (simp add: log_less_iff)
qed

lemma above_binade: "0 < x \<Longrightarrow> - 1022 < binade x \<Longrightarrow> 2 powr (of_int (binade x)) \<le> x"
proof -
  assume x: "0 < x" and b: "- 1022 < binade x"
  then have "binade x = \<lfloor>log 2 x\<rfloor>" by (simp add: binade_def max_def split: if_splits)
  then have "of_int (binade x) \<le> log 2 x" by simp
  with x show ?thesis by (simp add: le_log_iff)
qed

lemma ulp_pos: "0 < ulp x"
  by (simp add: ulp_def)

lemma roundDouble_pos: "0 < x \<Longrightarrow> roundDouble x = of_int (roundEven (x / ulp x)) * ulp x"
  by (simp add: roundDouble_def)

lemma roundDouble_le_next: 
  assumes "0 < x" shows "roundDouble x \<le> 2 powr (of_int (binade x) + 1)"
proof -
  have "x / ulp x \<le> 2 powr (of_int (binade x) + 1) / ulp x"
    using below_next [OF assms] ulp_pos [of x] by (simp add: divide_right_mono)
  also have "\<dots> = 2 powr 53" by (simp add: ulp_def flip: powr_diff)
  also have "\<dots> = of_int (2 ^ 53)" by simp
  finally have "roundEven (x / ulp x) \<le> 2 ^ 53"
    using roundEven_mono [of "x / ulp x" "of_int (2 ^ 53)"] by (simp only: roundEven_of_int)
  then have "of_int (roundEven (x / ulp x)) * ulp x \<le> of_int (2 ^ 53) * ulp x"
    using ulp_pos [of x] by (intro mult_right_mono) (simp_all add: less_imp_le)
  also have "\<dots> = 2 powr 53 * ulp x" by simp
  also have "\<dots> = 2 powr (of_int (binade x) + 1)"
    using two_powr_shift [of 53 "of_int (binade x)" 52] by (simp add: ulp_def)
  finally show ?thesis using assms by (simp add: roundDouble_pos)
qed

lemma roundDouble_ge_binade:
  assumes "0 < x" and "- 1022 < binade x" shows "2 powr (of_int (binade x)) \<le> roundDouble x"
proof -
  have "2 powr (of_int (binade x)) / ulp x \<le> x / ulp x"
    using above_binade [OF assms] ulp_pos [of x] by (simp add: divide_right_mono)
  moreover have "2 powr (of_int (binade x)) / ulp x = 2 powr 52" by (simp add: ulp_def flip: powr_diff)
  moreover have "2 powr 52 = (of_int (2 ^ 52) :: real)" by simp
  ultimately have "2 ^ 52 \<le> roundEven (x / ulp x)"
    using roundEven_mono [of "of_int (2 ^ 52)" "x / ulp x"] by (simp only: roundEven_of_int)
  then have "of_int (2 ^ 52) * ulp x \<le> of_int (roundEven (x / ulp x)) * ulp x"
    using ulp_pos [of x] by (intro mult_right_mono) (simp_all add: less_imp_le)
  moreover have "of_int (2 ^ 52) * ulp x = 2 powr 52 * ulp x" by simp
  moreover have "2 powr 52 * ulp x = 2 powr (of_int (binade x))"
    using two_powr_shift [of 52 "of_int (binade x)" 52] by (simp add: ulp_def)
  ultimately show ?thesis using assms by (simp add: roundDouble_pos)
qed

lemma roundDouble_mono:
  assumes "0 < x" and "x \<le> y" shows "roundDouble x \<le> roundDouble y"
proof -
  from assms have y: "0 < y" by simp
  from binade_mono [OF assms] have b: "binade x \<le> binade y" .
  show ?thesis
  proof (cases "binade x = binade y")
    case True
    then have u: "ulp x = ulp y" by (simp add: ulp_def)
    from assms ulp_pos [of y] have "x / ulp y \<le> y / ulp y" by (simp add: divide_right_mono)
    then have "roundEven (x / ulp y) \<le> roundEven (y / ulp y)" by (rule roundEven_mono)
    then have "of_int (roundEven (x / ulp y)) * ulp y \<le> of_int (roundEven (y / ulp y)) * ulp y"
      using ulp_pos [of y] by (intro mult_right_mono) (simp_all add: less_imp_le)
    with assms y u show ?thesis by (simp add: roundDouble_pos)
  next
    case False
    with b have lt: "binade x + 1 \<le> binade y" by simp
    have "- 1022 \<le> binade x" by (simp add: binade_def)
    with lt have "- 1022 < binade y" by simp
    from roundDouble_ge_binade [OF y this] have "2 powr (of_int (binade y)) \<le> roundDouble y" .
    moreover have "(2::real) powr (of_int (binade x) + 1) \<le> 2 powr (of_int (binade y))"
    proof -
      from lt have "(of_int (binade x) + 1 :: real) \<le> of_int (binade y)" by linarith
      then show ?thesis by (simp only: powr_le_cancel_iff one_less_numeral_iff semiring_norm)
    qed
    ultimately show ?thesis using roundDouble_le_next [OF assms(1)] by linarith
  qed
qed

lemma roundDouble_1: "roundDouble 1 = 1"
proof -
  have b: "binade 1 = 0" by (simp add: binade_def)
  have u: "ulp 1 = 2 powr (- 52)" by (simp add: ulp_def b)
  have "1 / ulp 1 = 2 powr 52" by (simp add: u powr_minus divide_simps)
  also have "\<dots> = of_int (2 ^ 52)" by simp
  finally have "roundEven (1 / ulp 1) = 2 ^ 52" by (simp only: roundEven_of_int)
  then have "roundDouble 1 = of_int (2 ^ 52) * 2 powr (- 52)" by (simp add: roundDouble_def u)
  also have "\<dots> = 2 powr 52 * 2 powr (- 52)" by simp
  also have "\<dots> = 1"
    using two_powr_shift [of 52 0 52] by simp
  finally show ?thesis .
qed

lemma roundEven_small: "0 \<le> z \<Longrightarrow> z < 1 / 2 \<Longrightarrow> roundEven z = 0"
proof -
  assume z: "0 \<le> z" "z < 1 / 2"
  then have "\<lfloor>z\<rfloor> = 0" by (simp add: floor_eq_iff)
  with z show ?thesis by (simp add: roundEven_def)
qed

lemma roundEven_near: "of_int n - 1 / 2 < z \<Longrightarrow> z < of_int n \<Longrightarrow> roundEven z = n"
proof -
  assume z: "of_int n - 1 / 2 < z" "z < of_int n"
  then have "\<lfloor>z\<rfloor> = n - 1" by (simp add: floor_eq_iff)
  with z show ?thesis by (simp add: roundEven_def)
qed

lemma roundDouble_underflow:
  assumes "0 < x" and "x < 2 powr (- 1075)" shows "roundDouble x = 0"
proof -
  from assms have "log 2 x < - 1075" by (simp add: log_less_iff)
  then have "\<lfloor>log 2 x\<rfloor> \<le> - 1022" by linarith
  then have b: "binade x = - 1022" by (simp add: binade_def)
  then have u: "ulp x = 2 powr (- 1074)" by (simp add: ulp_def)
  have "2 powr (- 1075) = (2 powr (- 1074) / 2 :: real)"
    using two_powr_shift [of "- 1" "- 1074" 0] by (simp add: powr_minus)
  with assms have "x / 2 powr (- 1074) < 1 / 2" by (simp add: divide_simps)
  moreover from assms have "0 < x / 2 powr (- 1074)" by simp
  ultimately have "roundEven (x / 2 powr (- 1074)) = 0"
    by (intro roundEven_small) simp_all
  with assms u show ?thesis by (simp add: roundDouble_pos)
qed

lemma exp_below_doubles:
  assumes "1075 \<le> (t::real)" shows "exp (- t) < 2 powr (- 1075)"
proof -
  have "(2::real) powr (- 1075) = exp (- 1075 * ln 2)" by (simp add: powr_def)
  moreover have "1075 * ln 2 < (1075::real)" using ln_2_less_1 by simp
  then have "- t < - 1075 * ln 2" using assms by linarith
  ultimately show ?thesis by (simp only: exp_less_cancel_iff)
qed

lemma Math_exp_underflow: "1075 \<le> t \<Longrightarrow> Math_exp (- t) = 0"
  unfolding Math_exp_def by (intro roundDouble_underflow exp_below_doubles) simp_all

lemma roundDouble_just_below_1:
  assumes "1 - 2 powr (- 54) < x" and "x < 1" shows "roundDouble x = 1"
proof -
  have small: "(2::real) powr (- 54) \<le> 1 / 2" by (simp add: powr_minus divide_simps)
  with assms have half: "1 / 2 \<le> x" and pos: "0 < x" by simp_all
  from half pos have "- 1 \<le> log 2 x" by (simp add: le_log_iff powr_minus)
  moreover from assms pos have "log 2 x < 0" by (simp add: log_less_iff)
  ultimately have "\<lfloor>log 2 x\<rfloor> = - 1" by (simp add: floor_eq_iff)
  then have b: "binade x = - 1" by (simp add: binade_def)
  then have u: "ulp x = 2 powr (- 53)" by (simp add: ulp_def)
  have u': "(2::real) powr (- 53) = 1 / 2 ^ 53" by (simp add: powr_minus divide_simps)
  have e54: "(2::real) powr (- 54) = 1 / 2 ^ 54" by (simp add: powr_minus divide_simps)
  let ?z = "x * 2 ^ 53"
  from assms have lo: "2 ^ 53 - 1 / 2 < ?z" by (simp add: e54 field_simps)
  from assms have hi: "?z < 2 ^ 53" by simp
  from lo hi have "roundEven ?z = 2 ^ 53"
    using roundEven_near [of "2 ^ 53" ?z] by simp
  moreover have "x / ulp x = ?z" by (simp add: u u')
  ultimately have "roundDouble x = of_int (2 ^ 53) * (1 / 2 ^ 53)"
    using pos by (simp only: roundDouble_pos u u')
  then show ?thesis by simp
qed

lemma Math_exp_tiny: "Math_exp (- (1 / 2 ^ 59)) = 1"
proof -
  have "1 + - (1 / 2 ^ 59) \<le> exp (- (1 / 2 ^ 59) :: real)" by (rule exp_ge_add_one_self)
  moreover have "(2::real) powr (- 54) = 1 / 2 ^ 54" by (simp add: powr_minus divide_simps)
  ultimately have "1 - 2 powr (- 54) < exp (- (1 / 2 ^ 59) :: real)" by simp
  moreover have "exp (- (1 / 2 ^ 59) :: real) < 1" by simp
  ultimately show ?thesis unfolding Math_exp_def by (rule roundDouble_just_below_1)
qed

lemma Math_exp_0: "Math_exp 0 = 1"
  by (simp add: Math_exp_def roundDouble_1)

lemma Math_exp_mono: "x \<le> y \<Longrightarrow> Math_exp x \<le> Math_exp y"
  unfolding Math_exp_def by (intro roundDouble_mono) simp_all

text \<open>
  C5 (as amended). For a distance \<open>d \<ge> 0\<close> the confidence the code computes is
  \<open>clamp(Math.exp(-2 d), 0, 1)\<close>; it is exactly 1 at distance 0, and a larger distance
  never gives a larger confidence.
\<close>

theorem distanceToConfidence_nonincreasing:
  "(0 \<le> d \<longrightarrow> distanceToConfidence_double d = max 0 (min 1 (Math_exp (- 2 * d)))) \<and>
   distanceToConfidence_double 0 = 1 \<and>
   (0 \<le> d1 \<and> d1 \<le> d2 \<longrightarrow> distanceToConfidence_double d2 \<le> distanceToConfidence_double d1)"
proof (intro conjI impI)
  show "distanceToConfidence_double d = max 0 (min 1 (Math_exp (- 2 * d)))"
    by (simp add: distanceToConfidence_double_def Let_def mult.commute)
  show "distanceToConfidence_double 0 = 1"
    by (simp add: distanceToConfidence_double_def Math_exp_0)
  assume "0 \<le> d1 \<and> d1 \<le> d2"
  then have "Math_exp (- d2 * 2) \<le> Math_exp (- d1 * 2)"
    by (intro Math_exp_mono) simp
  then show "distanceToConfidence_double d2 \<le> distanceToConfidence_double d1"
    by (simp add: distanceToConfidence_double_def Let_def)
qed

theorem distanceToConfidence_nonincreasing_witness:
  "(0::real) \<le> 1 \<and> distanceToConfidence_double 1 = max 0 (min 1 (Math_exp (- 2))) \<and>
   distanceToConfidence_double 0 = 1 \<and>
   (0::real) \<le> 0 \<and> (0::real) \<le> 1 \<and>
   distanceToConfidence_double 1 \<le> distanceToConfidence_double 0"
  using distanceToConfidence_nonincreasing [of 1 0 1] by simp

text \<open>
  C5 as stated fails: the confidence is not strictly decreasing. The distances 1000
  and 2000 both give 0, the exponential being below half the least positive double;
  the distances 0 and \<open>2 ^ - 60\<close> both give 1, the exponential being nearer to 1 than to
  the double below it.
\<close>

theorem distanceToConfidence_not_strict:
  "(0::real) \<le> 1000 \<and> (1000::real) < 2000 \<and>
   distanceToConfidence_double 1000 = 0 \<and> distanceToConfidence_double 2000 = 0 \<and>
   \<not> distanceToConfidence_double 2000 < distanceToConfidence_double 1000 \<and>
   (0::real) < 1 / 2 ^ 60 \<and>
   distanceToConfidence_double 0 = 1 \<and> distanceToConfidence_double (1 / 2 ^ 60) = 1 \<and>
   \<not> distanceToConfidence_double (1 / 2 ^ 60) < distanceToConfidence_double 0"
proof -
  have a: "distanceToConfidence_double 1000 = 0"
    using Math_exp_underflow [of 2000] by (simp add: distanceToConfidence_double_def)
  have b: "distanceToConfidence_double 2000 = 0"
    using Math_exp_underflow [of 4000] by (simp add: distanceToConfidence_double_def)
  have c: "distanceToConfidence_double 0 = 1"
    by (simp add: distanceToConfidence_double_def Math_exp_0)
  have "(1 / 2 ^ 60 * 2 :: real) = 1 / 2 ^ 59" by simp
  then have d: "distanceToConfidence_double (1 / 2 ^ 60) = 1"
    using Math_exp_tiny by (simp add: distanceToConfidence_double_def)
  from a b c d show ?thesis by simp
qed

section \<open>The store's counter\<close>

lemma countDescriptors_Cons:
  "countDescriptors (e # fs) = length (descriptors (snd e)) + countDescriptors fs"
  by (cases e) (simp add: countDescriptors_def)

lemma countDescriptors_update_new:
  "map_of fs k = None \<Longrightarrow>
   countDescriptors (AList.update k v fs) = countDescriptors fs + length (descriptors v)"
  by (induction fs) (auto simp: countDescriptors_def)

lemma countDescriptors_update_old:
  "distinct (map fst fs) \<Longrightarrow> map_of fs k = Some f \<Longrightarrow>
   countDescriptors (AList.update k v fs) + length (descriptors f) =
   countDescriptors fs + length (descriptors v)"
proof (induction fs)
  case Nil
  then show ?case by simp
next
  case (Cons e fs)
  then show ?case by (cases e) (auto simp: countDescriptors_Cons)
qed

lemma countDescriptors_delete:
  "distinct (map fst fs) \<Longrightarrow> map_of fs k = Some f \<Longrightarrow>
   countDescriptors (AList.delete k fs) + length (descriptors f) = countDescriptors fs"
proof (induction fs)
  case Nil
  then show ?case by simp
next
  case (Cons e fs)
  then show ?case
    by (cases e) (auto simp: countDescriptors_Cons map_of_eq_None_iff delete_id)
qed

lemma validFace_update:
  "list_all validFace fs \<Longrightarrow> validFace (k, v) \<Longrightarrow> list_all validFace (AList.update k v fs)"
  by (induction fs) auto

lemma validFace_delete: "list_all validFace fs \<Longrightarrow> list_all validFace (AList.delete k fs)"
  by (induction fs) auto

lemma validFace_lookup:
  "list_all validFace fs \<Longrightarrow>
   map_of fs k = Some f \<Longrightarrow>
   validFace (k, f)"
  by (induction fs) (auto split: if_splits)

lemma storeInvariant_addKnownFace:
  assumes inv: "storeInvariant (faceDatabase s)"
  shows "storeInvariant (faceDatabase (snd (addKnownFace P now name ex s)))"
proof (cases ex)
  case None
  with inv show ?thesis by (simp add: addKnownFace_def)
next
  case ex: (Some d)
  let ?k = "generateFaceId P name"
  show ?thesis
  proof (cases "map_of (faces (faceDatabase s)) ?k")
    case None
    with inv ex show ?thesis
      by (simp add: addKnownFace_def storeInvariant_def Let_def distinct_update
          countDescriptors_update_new validFace_update validFace_def)
  next
    case (Some f)
    let ?f' = "f\<lparr>descriptors := descriptors f @ [d], lastSeen := Some (Date now)\<rparr>"
    from inv Some have vf: "validFace (?k, f)"
      by (auto simp: storeInvariant_def intro: validFace_lookup)
    from inv Some countDescriptors_update_old [of "faces (faceDatabase s)" ?k f ?f']
    have "countDescriptors (AList.update ?k ?f' (faces (faceDatabase s))) =
          countDescriptors (faces (faceDatabase s)) + 1"
      by (simp add: storeInvariant_def)
    with inv Some ex vf show ?thesis
      by (simp add: addKnownFace_def storeInvariant_def Let_def distinct_update
          validFace_update validFace_def)
  qed
qed

lemma storeInvariant_removeKnownFace:
  assumes inv: "storeInvariant (faceDatabase s)"
  shows "storeInvariant (faceDatabase (snd (removeKnownFace P now name s)))"
proof (cases "map_of (faces (faceDatabase s)) (generateFaceId P name)")
  case None
  with inv show ?thesis by (simp add: removeKnownFace_def Let_def)
next
  case (Some f)
  with inv countDescriptors_delete [of "faces (faceDatabase s)" "generateFaceId P name" f]
  show ?thesis
    by (simp add: removeKnownFace_def storeInvariant_def Let_def distinct_delete validFace_delete)
qed

lemma faceDatabase_updateThresholds: "faceDatabase (updateThresholds opts s) = faceDatabase s"
  by (simp add: updateThresholds_def Let_def split: option.splits)

lemma reachable_storeInvariant: "reachable P s \<Longrightarrow> storeInvariant (faceDatabase s)"
proof (induction rule: reachable.induct)
  case (constructed now)
  show ?case
    by (simp add: newFaceRecognitionService_def storeInvariant_def countDescriptors_def)
next
  case (added s now name extraction)
  then show ?case by (simp add: storeInvariant_addKnownFace)
next
  case (removed s now name)
  then show ?case by (simp add: storeInvariant_removeKnownFace)
next
  case (cleared s now)
  show ?case by (simp add: clearDatabase_def storeInvariant_def countDescriptors_def)
next
  case (configured s options)
  then show ?case by (simp add: faceDatabase_updateThresholds)
qed

lemma oneFaceService_faceDatabase:
  "faceDatabase oneFaceService =
     \<lparr>faces = [(lit ''ann'', \<lparr>face_id = lit ''ann'', face_name = lit ''Ann'', descriptors = [[0]],
                              addedAt = Date 1, lastSeen = Some (Date 1)\<rparr>)],
      totalDescriptors = 1, lastUpdated = Date 1\<rparr>"
  by (simp add: oneFaceService_def addKnownFace_def newFaceRecognitionService_def
      generateFaceId_Ann Let_def)

lemma reachable_oneFaceService: "reachable stubPlatform oneFaceService"
  unfolding oneFaceService_def by (intro reachable.intros)

text \<open>
  C3. In every state the store can be in, \<open>totalDescriptors\<close> is the sum of the lengths
  of the embedding lists of the stored identities. Since the reachable states are
  closed under the operations, each of them preserves this: a successful add raises
  the counter by one (a failed one leaves it), a removal lowers it by the embedding
  count of the identity removed, and a clear leaves no identity and a counter of zero.
\<close>

theorem totalDescriptors_is_sum:
  assumes "reachable P s"
  shows "totalDescriptors (faceDatabase s) = int (countDescriptors (faces (faceDatabase s))) \<and>
    (\<forall>now name d.
       totalDescriptors (faceDatabase (snd (addKnownFace P now name (Some d) s))) =
         totalDescriptors (faceDatabase s) + 1 \<and>
       totalDescriptors (faceDatabase (snd (addKnownFace P now name None s))) =
         totalDescriptors (faceDatabase s) \<and>
       totalDescriptors (faceDatabase (snd (removeKnownFace P now name s))) =
         totalDescriptors (faceDatabase s) -
           (case map_of (faces (faceDatabase s)) (generateFaceId P name) of
              Some face \<Rightarrow> int (length (descriptors face)) | None \<Rightarrow> 0) \<and>
       totalDescriptors (faceDatabase (clearDatabase now s)) = 0 \<and>
       faces (faceDatabase (clearDatabase now s)) = [])"
proof -
  from assms have "storeInvariant (faceDatabase s)"
    by (rule reachable_storeInvariant)
  then have "totalDescriptors (faceDatabase s) = int (countDescriptors (faces (faceDatabase s)))"
    by (simp add: storeInvariant_def)
  then show ?thesis
    by (simp add: addKnownFace_def removeKnownFace_def clearDatabase_def Let_def
        split: option.splits)
qed

theorem totalDescriptors_is_sum_witness:
  "reachable stubPlatform oneFaceService \<and>
   totalDescriptors (faceDatabase oneFaceService) = 1 \<and>
   countDescriptors (faces (faceDatabase oneFaceService)) = 1 \<and>
   totalDescriptors (faceDatabase (snd (removeKnownFace stubPlatform 2 (lit ''Ann'') oneFaceService))) = 0"
  using totalDescriptors_is_sum [OF reachable_oneFaceService] reachable_oneFaceService
  by (simp add: oneFaceService_faceDatabase generateFaceId_Ann countDescriptors_def)

text \<open>
  C8. Removing a name whose derived id is not a key of the store returns
  \<^verbatim>\<open>false\<close> and leaves the store as it was, so \<^verbatim>\<open>getDatabaseStats\<close> reports the
  same number of identities, the same number of embeddings and the same
  \<open>lastUpdated\<close> as before.
\<close>

theorem removeKnownFace_absent:
  assumes "map_of (faces (faceDatabase s)) (generateFaceId P name) = None"
  shows "fst (removeKnownFace P now name s) = False \<and>
         snd (removeKnownFace P now name s) = s \<and>
         getDatabaseStats (snd (removeKnownFace P now name s)) = getDatabaseStats s"
  using assms by (simp add: removeKnownFace_def Let_def)

theorem removeKnownFace_absent_witness:
  "map_of (faces (faceDatabase oneFaceService)) (generateFaceId stubPlatform (lit ''Bob'')) = None \<and>
   fst (removeKnownFace stubPlatform 2 (lit ''Bob'') oneFaceService) = False \<and>
   getDatabaseStats (snd (removeKnownFace stubPlatform 2 (lit ''Bob'') oneFaceService)) =
     \<lparr>totalFaces = 1, stats_totalDescriptors = 1, stats_lastUpdated = Date 1\<rparr>"
proof -
  have bob: "generateFaceId stubPlatform (lit ''Bob'') = lit ''bob''"
    by (simp add: generateFaceId_def lit_def toLowerCase_def isAscii_def asciiLower_def
        isWhiteSpace_def stripNonIdChars_def isIdChar_def)
  have absent: "map_of (faces (faceDatabase oneFaceService)) (generateFaceId stubPlatform (lit ''Bob'')) = None"
    unfolding bob by (simp add: oneFaceService_faceDatabase lit_def)
  from removeKnownFace_absent [OF absent, of 2] absent show ?thesis
    by (simp add: getDatabaseStats_def oneFaceService_faceDatabase)
qed

section \<open>Matching\<close>

lemma foldE_append:
  "foldE f (xs @ ys) st = (case foldE f xs st of Inl e \<Rightarrow> Inl e | Inr st' \<Rightarrow> foldE f ys st')"
  by (induction xs arbitrary: st) (auto split: sum.splits)

lemma foldE_cong:
  "(\<And>x st. x \<in> set xs \<Longrightarrow>
   f x st = g x st) \<Longrightarrow>
   foldE f xs st = foldE g xs st"
  by (induction xs arbitrary: st) (auto split: sum.splits)

lemma foldE_map: "foldE f (map h xs) st = foldE (\<lambda>x. f (h x)) xs st"
  by (induction xs arbitrary: st) (auto split: sum.splits)

lemma foldE_concat: "foldE f (concat xss) st = foldE (\<lambda>xs. foldE f xs) xss st"
  by (induction xss arbitrary: st) (auto simp: foldE_append split: sum.splits)

lemma distance_is_euclid:
  "length a = length b \<Longrightarrow>
   calculateEuclideanDistance a b = Inr (euclid a b)"
  by (simp add: calculateEuclideanDistance_def euclid_def fold_addSquaredDiff)

lemma distance_Inr:
  "calculateEuclideanDistance a b = Inr d \<Longrightarrow>
   d = euclid a b \<and> length a = length b"
  by (auto simp: calculateEuclideanDistance_def euclid_def fold_addSquaredDiff split: if_splits)

lemma considerDescriptor_candidate: "i < length (descriptors f) \<Longrightarrow>
  considerDescriptor s q faceId f i st = considerCandidate s q (faceId, f, i, descriptors f ! i) st"
  by (auto simp: considerDescriptor_def considerCandidate_def elemAt_def embedding_def matchOf_def dest!: distance_Inr split: sum.splits)

lemma scanFace_candidates: "scanFace s q (faceId, f) st =
  foldE (considerCandidate s q) (map (\<lambda>i. (faceId, f, i, descriptors f ! i)) [0..<length (descriptors f)]) st"
  unfolding scanFace_def foldE_map by (auto intro!: foldE_cong simp: considerDescriptor_candidate)

lemma scanFaces_candidates:
  "foldE (scanFace s q) fs st = foldE (considerCandidate s q) (concat (map (\<lambda>(faceId, knownFace).
                    map (\<lambda>i. (faceId, knownFace, i, descriptors knownFace ! i))
                      [0..<length (descriptors knownFace)]) fs)) st"
  unfolding foldE_concat foldE_map by (auto intro!: foldE_cong simp: scanFace_candidates)

lemma findBestMatch_candidates:
  "findBestMatch s q = (case foldE (considerCandidate s q) (candidates s) (None, None) of Inl e \<Rightarrow> Inl e | Inr st \<Rightarrow> Inr (fst st))"
  by (simp add: findBestMatch_def candidates_def scanFaces_candidates split: sum.splits prod.splits)

lemma considerCandidate_mismatch:
  "length (embedding c) \<noteq> length q \<Longrightarrow>
   considerCandidate s q c st = Inl (Error (lit ''Descriptors must have the same length''))"
  by (auto simp: considerCandidate_def calculateEuclideanDistance_def)

lemma scan_mismatch:
  "\<exists>c\<in>set cs. length (embedding c) \<noteq> length q \<Longrightarrow>
   foldE (considerCandidate s q) cs st = Inl (Error (lit ''Descriptors must have the same length''))"
proof (induction cs arbitrary: st)
  case Nil then show ?case by simp
next
  case (Cons c cs)
  show ?case
  proof (cases "length (embedding c) = length q")
    case True
    with Cons.prems have "\<exists>c\<in>set cs. length (embedding c) \<noteq> length q" by auto
    from Cons.IH[OF this] True show ?thesis by (auto simp: considerCandidate_def distance_is_euclid)
  next
    case False then show ?thesis by (simp add: considerCandidate_mismatch)
  qed
qed

lemma distance_matchOf: "distance (matchOf q c) = euclid q (embedding c)"
  by (simp add: matchOf_def embedding_def split: prod.splits)

lemma nearest_snoc:
  assumes inv: "nearestSoFar s q cs st" and len: "length (embedding c) = length q"
  shows "\<exists>st'. considerCandidate s q c st = Inr st' \<and> nearestSoFar s q (cs @ [c]) st'"
proof -
  let ?D = "\<lambda>c. euclid q (embedding c)"
  let ?d = "?D c"
  have calc: "calculateEuclideanDistance q (embedding c) = Inr ?d" using len by (simp add: distance_is_euclid)
  show ?thesis
  proof (cases "belowBest ?d (snd st) \<and> ?d \<le> MAX_DISTANCE s")
    case True
    then have step: "considerCandidate s q c st = Inr (Some (matchOf q c), Some ?d)" by (simp add: considerCandidate_def calc)
    have below: "\<forall>j<length cs. ?d < ?D (cs ! j)"
    proof (cases "fst st")
      case None
      with inv have "\<forall>c\<in>set cs. \<not> ?D c \<le> MAX_DISTANCE s" by (simp add: nearestSoFar_def)
      then have "\<forall>j<length cs. MAX_DISTANCE s < ?D (cs ! j)" by (simp add: not_le)
      with True show ?thesis by (meson le_less_trans)
    next
      case (Some m)
      with inv obtain k where k: "k < length cs" "m = matchOf q (cs ! k)" "\<forall>j<length cs. ?D (cs ! k) \<le> ?D (cs ! j)"
        by (auto simp: nearestSoFar_def)
      from inv Some k have "snd st = Some (?D (cs ! k))" by (simp add: nearestSoFar_def distance_matchOf)
      with True have "?d < ?D (cs ! k)" by (simp add: belowBest_def)
      with k show ?thesis by fastforce
    qed
    have "nearestSoFar s q (cs @ [c]) (Some (matchOf q c), Some ?d)"
      unfolding nearestSoFar_def using True below
      by (auto simp: distance_matchOf nth_append less_Suc_eq intro!: exI[of _ "length cs"] dest: less_imp_le)
    with step show ?thesis by blast
  next
    case False
    then have step: "considerCandidate s q c st = Inr st" by (auto simp: considerCandidate_def calc)
    have "nearestSoFar s q (cs @ [c]) st"
    proof (cases "fst st")
      case None
      with inv have "snd st = None" by (simp add: nearestSoFar_def)
      with False have "\<not> ?d \<le> MAX_DISTANCE s" by (simp add: belowBest_def)
      with inv None show ?thesis by (auto simp: nearestSoFar_def)
    next
      case (Some m)
      with inv obtain k where k: "k < length cs" "m = matchOf q (cs ! k)" "?D (cs ! k) \<le> MAX_DISTANCE s"
         "\<forall>j<length cs. ?D (cs ! k) \<le> ?D (cs ! j)" "\<forall>j<k. ?D (cs ! k) < ?D (cs ! j)"
        by (auto simp: nearestSoFar_def)
      from inv Some k have "snd st = Some (?D (cs ! k))" by (simp add: nearestSoFar_def distance_matchOf)
      with False k have le: "?D (cs ! k) \<le> ?d" by (auto simp: belowBest_def)
      have "\<exists>k'<length (cs @ [c]). m = matchOf q ((cs @ [c]) ! k') \<and> ?D ((cs @ [c]) ! k') \<le> MAX_DISTANCE s \<and>
           (\<forall>j<length (cs @ [c]). ?D ((cs @ [c]) ! k') \<le> ?D ((cs @ [c]) ! j)) \<and>
           (\<forall>j<k'. ?D ((cs @ [c]) ! k') < ?D ((cs @ [c]) ! j))"
        using k le by (intro exI[of _ k]) (auto simp: nth_append less_Suc_eq)
      with inv Some show ?thesis by (auto simp: nearestSoFar_def)
    qed
    with step show ?thesis by blast
  qed
qed

lemma scan_nearest:
  "\<forall>c\<in>set cs. length (embedding c) = length q \<Longrightarrow>
   \<exists>st. foldE (considerCandidate s q) cs (None, None) = Inr st \<and> nearestSoFar s q cs st"
proof (induction cs rule: rev_induct)
  case Nil
  show ?case by (simp add: nearestSoFar_def)
next
  case (snoc c cs)
  then obtain st where st: "foldE (considerCandidate s q) cs (None, None) = Inr st" "nearestSoFar s q cs st" by auto
  from snoc.prems have "length (embedding c) = length q" by simp
  from nearest_snoc[OF st(2) this] obtain st' where "considerCandidate s q c st = Inr st'" "nearestSoFar s q (cs @ [c]) st'" by blast
  with st show ?case by (simp add: foldE_append)
qed

lemma generateFaceId_Bob: "generateFaceId P (lit ''Bob'') = lit ''bob''"
  by (simp add: generateFaceId_def lit_def toLowerCase_def isAscii_def asciiLower_def
      isWhiteSpace_def stripNonIdChars_def isIdChar_def)

lemma twoFaceService_eq:
  "twoFaceService =
     \<lparr>faceDatabase = \<lparr>faces = [(lit ''ann'', \<lparr>face_id = lit ''ann'', face_name = lit ''Ann'', descriptors = [[0]],
                              addedAt = Date 1, lastSeen = Some (Date 1)\<rparr>),
               (lit ''bob'', \<lparr>face_id = lit ''bob'', face_name = lit ''Bob'', descriptors = [[1]],
                              addedAt = Date 2, lastSeen = Some (Date 2)\<rparr>)],
      totalDescriptors = 2, lastUpdated = Date 2\<rparr>, RECOGNITION_THRESHOLD = 0.6, MIN_CONFIDENCE = 0.5, MAX_DISTANCE = 0.6\<rparr>"
  unfolding twoFaceService_def oneFaceService_def
  apply (simp add: addKnownFace_def newFaceRecognitionService_def generateFaceId_Ann generateFaceId_Bob Let_def)
  apply (simp add: lit_def)
  done

lemma decimal_0: "decimal 0 = [0x30]"
  by (subst decimal.simps) simp

lemma distance_half_0: "calculateEuclideanDistance [1/2] [0] = Inr (1/2)"
  by (simp add: calculateEuclideanDistance_def addSquaredDiff_def elemAt_def real_sqrt_divide)

lemma distance_half_1: "calculateEuclideanDistance [1/2] [1] = Inr (1/2)"
  by (simp add: calculateEuclideanDistance_def addSquaredDiff_def elemAt_def real_sqrt_divide)

lemma euclid_half: "euclid [1/2] [0] = 1/2" "euclid [1/2] [1] = 1/2"
  using distance_Inr [OF distance_half_0] distance_Inr [OF distance_half_1] by simp_all

lemma candidates_twoFaceService:
  "candidates twoFaceService = [(lit ''ann'', \<lparr>face_id = lit ''ann'', face_name = lit ''Ann'', descriptors = [[0]],
                              addedAt = Date 1, lastSeen = Some (Date 1)\<rparr>, 0, [0]), (lit ''bob'', \<lparr>face_id = lit ''bob'', face_name = lit ''Bob'', descriptors = [[1]],
                              addedAt = Date 2, lastSeen = Some (Date 2)\<rparr>, 0, [1])]"
  by (simp add: candidates_def twoFaceService_eq)

lemma MAX_DISTANCE_twoFaceService: "MAX_DISTANCE twoFaceService = 0.6"
  by (simp add: twoFaceService_eq)

lemma findBestMatch_twoFaceService: "findBestMatch twoFaceService [1/2] =
     Inr (Some \<lparr>personName = lit ''Ann'', confidence = distanceToConfidence (1/2), distance = 1/2,
                descriptorId = lit ''ann'' @ lit ''_'' @ decimal 0\<rparr>)"
  unfolding findBestMatch_candidates candidates_twoFaceService
  by (simp add: considerCandidate_def embedding_def distance_half_0 distance_half_1 belowBest_def MAX_DISTANCE_twoFaceService matchOf_def euclid_half)

lemma descriptorId_ann_0: "lit ''ann'' @ lit ''_'' @ decimal 0 = lit ''ann_0''"
  by (simp add: lit_def decimal_0)

lemma considerDescriptor_change:
  "considerDescriptor s q faceId f i st = Inr st' \<Longrightarrow> st' \<noteq> st \<Longrightarrow>
     (\<exists>kd d. elemAt (descriptors f) i = Some kd \<and> calculateEuclideanDistance q kd = Inr d \<and>
        belowBest d (snd st) \<and> d \<le> MAX_DISTANCE s \<and> st' = (Some (matchOf q (faceId, f, i, kd)), Some d))"
  by (auto simp: considerDescriptor_def matchOf_def split: option.splits sum.splits if_splits dest!: distance_Inr)

text \<open>
  C4 (as amended). The scan of \<^verbatim>\<open>findBestMatch\<close> visits every stored embedding of every identity.
  One step replaces the running best only when the distance computed is strictly below
  the running best distance and at most \<open>MAX_DISTANCE\<close>. Whenever the distances are
  defined (every stored embedding has the length of the query), the call returns; it
  returns no match exactly when no stored embedding is within \<open>MAX_DISTANCE\<close> of the
  query, and otherwise the match built from the candidate at the first position, in
  iteration order, whose distance is the least of all: every candidate is at least as
  far, every earlier one strictly farther. If some stored embedding has another length
  the call throws the length-mismatch error instead of returning.
\<close>

theorem findBestMatch_first_nearest:
  "(\<forall>faceId f i st st'. considerDescriptor s q faceId f i st = Inr st' \<and> st' \<noteq> st \<longrightarrow>
      (\<exists>kd d. elemAt (descriptors f) i = Some kd \<and> calculateEuclideanDistance q kd = Inr d \<and>
         belowBest d (snd st) \<and> d \<le> MAX_DISTANCE s \<and>
         st' = (Some (matchOf q (faceId, f, i, kd)), Some d))) \<and>
   ((\<exists>c\<in>set (candidates s). length (embedding c) \<noteq> length q) \<longrightarrow>
      findBestMatch s q = Inl (Error (lit ''Descriptors must have the same length''))) \<and>
   ((\<forall>c\<in>set (candidates s). length (embedding c) = length q) \<longrightarrow>
      (\<exists>r. findBestMatch s q = Inr r \<and>
         (r = None \<longleftrightarrow> (\<forall>c\<in>set (candidates s). \<not> euclid q (embedding c) \<le> MAX_DISTANCE s)) \<and>
         (\<forall>m. r = Some m \<longrightarrow>
            (\<exists>k<length (candidates s).
               m = matchOf q (candidates s ! k) \<and>
               euclid q (embedding (candidates s ! k)) \<le> MAX_DISTANCE s \<and>
               (\<forall>j<length (candidates s).
                  euclid q (embedding (candidates s ! k)) \<le> euclid q (embedding (candidates s ! j))) \<and>
               (\<forall>j<k. euclid q (embedding (candidates s ! k)) < euclid q (embedding (candidates s ! j)))))))"
proof (intro conjI impI allI)
  fix faceId f i st st'
  assume "considerDescriptor s q faceId f i st = Inr st' \<and> st' \<noteq> st"
  then show "\<exists>kd d. elemAt (descriptors f) i = Some kd \<and> calculateEuclideanDistance q kd = Inr d \<and>
         belowBest d (snd st) \<and> d \<le> MAX_DISTANCE s \<and>
         st' = (Some (matchOf q (faceId, f, i, kd)), Some d)"
    by (intro considerDescriptor_change) auto
next
  assume "\<exists>c\<in>set (candidates s). length (embedding c) \<noteq> length q"
  then show "findBestMatch s q = Inl (Error (lit ''Descriptors must have the same length''))"
    by (simp add: findBestMatch_candidates scan_mismatch)
next
  assume "\<forall>c\<in>set (candidates s). length (embedding c) = length q"
  from scan_nearest [OF this, of s] obtain st where
    st: "foldE (considerCandidate s q) (candidates s) (None, None) = Inr st" "nearestSoFar s q (candidates s) st"
    by blast
  from st(1) have "findBestMatch s q = Inr (fst st)" by (simp add: findBestMatch_candidates)
  with st(2) show "\<exists>r. findBestMatch s q = Inr r \<and>
         (r = None \<longleftrightarrow> (\<forall>c\<in>set (candidates s). \<not> euclid q (embedding c) \<le> MAX_DISTANCE s)) \<and>
         (\<forall>m. r = Some m \<longrightarrow>
            (\<exists>k<length (candidates s).
               m = matchOf q (candidates s ! k) \<and>
               euclid q (embedding (candidates s ! k)) \<le> MAX_DISTANCE s \<and>
               (\<forall>j<length (candidates s).
                  euclid q (embedding (candidates s ! k)) \<le> euclid q (embedding (candidates s ! j))) \<and>
               (\<forall>j<k. euclid q (embedding (candidates s ! k)) < euclid q (embedding (candidates s ! j)))))"
    unfolding nearestSoFar_def by (intro exI [of _ "fst st"] conjI) auto
qed

theorem findBestMatch_first_nearest_witness:
  "length (candidates twoFaceService) = 2 \<and>
   length (embedding (candidates twoFaceService ! 0)) = length [1 / 2 :: real] \<and>
   length (embedding (candidates twoFaceService ! 1)) = length [1 / 2 :: real] \<and>
   euclid [1 / 2] (embedding (candidates twoFaceService ! 0)) = 1 / 2 \<and>
   euclid [1 / 2] (embedding (candidates twoFaceService ! 1)) = 1 / 2 \<and>
   findBestMatch twoFaceService [1 / 2] =
     Inr (Some \<lparr>personName = lit ''Ann'', confidence = distanceToConfidence (1 / 2),
                distance = 1 / 2, descriptorId = lit ''ann_0''\<rparr>)"
  using findBestMatch_first_nearest [of twoFaceService "[1 / 2]"]
  by (simp add: candidates_twoFaceService embedding_def euclid_half
      findBestMatch_twoFaceService descriptorId_ann_0)

lemma oneFaceService_thresholds:
  "MIN_CONFIDENCE oneFaceService = 0.5 \<and> MAX_DISTANCE oneFaceService = 0.6"
  by (simp add: oneFaceService_def addKnownFace_def newFaceRecognitionService_def Let_def)

lemma candidates_mixedLengthService:
  "candidates mixedLengthService =
     [(lit ''ann'', \<lparr>face_id = lit ''ann'', face_name = lit ''Ann'', descriptors = [[0]],
                      addedAt = Date 1, lastSeen = Some (Date 1)\<rparr>, 0, [0]),
      (lit ''bob'', \<lparr>face_id = lit ''bob'', face_name = lit ''Bob'', descriptors = [[0, 0]],
                      addedAt = Date 2, lastSeen = Some (Date 2)\<rparr>, 0, [0, 0])]"
proof -
  have "faces (faceDatabase mixedLengthService) =
     [(lit ''ann'', \<lparr>face_id = lit ''ann'', face_name = lit ''Ann'', descriptors = [[0]],
                      addedAt = Date 1, lastSeen = Some (Date 1)\<rparr>),
      (lit ''bob'', \<lparr>face_id = lit ''bob'', face_name = lit ''Bob'', descriptors = [[0, 0]],
                      addedAt = Date 2, lastSeen = Some (Date 2)\<rparr>)]"
    unfolding mixedLengthService_def
    apply (simp add: addKnownFace_def oneFaceService_faceDatabase generateFaceId_Bob Let_def)
    apply (simp add: lit_def)
    done
  then show ?thesis by (simp add: candidates_def)
qed

text \<open>
  C4 as stated fails on a store the service can reach: \<open>Ann\<close> holds \<open>[0]\<close> and \<open>Bob\<close>
  holds \<open>[0, 0]\<close>. For the query \<open>[0]\<close> the first stored embedding is at distance 0,
  within \<open>MAX_DISTANCE\<close>, yet the scan throws at the second one: the call returns no
  match, and \<^verbatim>\<open>recognizeFace\<close> reports none.
\<close>

theorem findBestMatch_mixed_lengths:
  "reachable stubPlatform mixedLengthService \<and>
   embedding (candidates mixedLengthService ! 0) = [0] \<and>
   calculateEuclideanDistance [0] [0] = Inr 0 \<and>
   (0::real) \<le> MAX_DISTANCE mixedLengthService \<and>
   findBestMatch mixedLengthService [0] =
     Inl (Error (lit ''Descriptors must have the same length'')) \<and>
   \<not> isMatch (recognizeFace mixedLengthService (Some [0]))"
proof -
  have r: "reachable stubPlatform mixedLengthService"
    unfolding mixedLengthService_def using reachable_oneFaceService by (rule reachable.added)
  have d: "calculateEuclideanDistance [0] [0] = Inr 0"
    by (simp add: calculateEuclideanDistance_def addSquaredDiff_def elemAt_def)
  have m: "MAX_DISTANCE mixedLengthService = 0.6"
    by (simp add: mixedLengthService_def addKnownFace_def Let_def oneFaceService_thresholds)
  have "\<exists>c\<in>set (candidates mixedLengthService). length (embedding c) \<noteq> length [0::real]"
    by (simp add: candidates_mixedLengthService embedding_def)
  then have f: "findBestMatch mixedLengthService [0] =
      Inl (Error (lit ''Descriptors must have the same length''))"
    by (simp only: findBestMatch_candidates scan_mismatch sum.case)
  from r d m f show ?thesis
    by (simp add: candidates_mixedLengthService embedding_def recognizeFace_def)
qed

lemma euclid_nonneg: "0 \<le> euclid a b"
  by (simp add: euclid_def sum_nonneg)

lemma considerCandidate_plausible:
  "considerCandidate s q c st = Inr st' \<Longrightarrow>
   plausible (fst st) \<Longrightarrow>
   plausible (fst st')"
  by (auto simp: considerCandidate_def plausible_def matchOf_def euclid_nonneg split: sum.splits if_splits prod.splits)

lemma foldE_plausible:
  "foldE (considerCandidate s q) cs st = Inr st' \<Longrightarrow>
   plausible (fst st) \<Longrightarrow>
   plausible (fst st')"
proof (induction cs arbitrary: st)
  case Nil then show ?case by simp
next
  case (Cons c cs)
  then show ?case by (auto split: sum.splits dest: considerCandidate_plausible)
qed

lemma findBestMatch_plausible:
  "findBestMatch s q = Inr (Some m) \<Longrightarrow>
   confidence m = distanceToConfidence (distance m) \<and> 0 \<le> distance m"
proof -
  assume a: "findBestMatch s q = Inr (Some m)"
  then obtain st where st: "foldE (considerCandidate s q) (candidates s) (None, None) = Inr st" "fst st = Some m"
    by (auto simp: findBestMatch_candidates split: sum.splits)
  from foldE_plausible[OF st(1)] have "plausible (fst st)" by (simp add: plausible_def)
  with st show ?thesis by (simp add: plausible_def)
qed

lemma half_confidence:
  "0 \<le> d \<Longrightarrow>
   (1/2 \<le> distanceToConfidence d) = (d \<le> ln 2 / 2)"
proof -
  assume d: "0 \<le> d"
  then have c: "distanceToConfidence d = exp (- 2 * d)" by (simp add: distanceToConfidence_def Let_def mult.commute)
  have "(1/2 \<le> exp (- 2 * d)) = (exp (ln (1/2)) \<le> exp (- 2 * d))"
    by simp
  also have "\<dots> = (ln (1/2) \<le> - 2 * d)"
    by (simp only: exp_le_cancel_iff)
  also have "\<dots> = (d \<le> ln 2 / 2)" by (simp add: ln_div mult.commute)
  finally show ?thesis using c by simp
qed

lemma ln2_half: "ln 2 / 2 < (0.6::real)"
  using ln_2_less_1 by simp

text \<open>
  C9. The constructor sets \<open>MIN_CONFIDENCE = 0.5\<close> and \<open>MAX_DISTANCE = 0.6\<close>. With
  these values \<^verbatim>\<open>recognizeFace\<close> reports a match exactly when the scan returns a best
  match whose distance \<open>d\<close> has \<open>exp (- 2 d) \<ge> 0.5\<close>, which is \<open>d \<le> ln 2 / 2\<close>;
  a best match at a distance above \<open>ln 2 / 2\<close> and at most 0.6 is reported as not
  matched, and \<open>ln 2 / 2 < 0.6\<close>: the confidence gate is the one that binds.
\<close>

theorem default_confidence_gate_binds:
  assumes "MIN_CONFIDENCE s = 0.5" and "MAX_DISTANCE s = 0.6"
  shows "MIN_CONFIDENCE (newFaceRecognitionService now) = 0.5 \<and>
         MAX_DISTANCE (newFaceRecognitionService now) = 0.6 \<and>
         (isMatch (recognizeFace s (Some q)) \<longleftrightarrow>
            (\<exists>m. findBestMatch s q = Inr (Some m) \<and> exp (- 2 * distance m) \<ge> 0.5)) \<and>
         (\<forall>m. findBestMatch s q = Inr (Some m) \<longrightarrow>
            (exp (- 2 * distance m) \<ge> 0.5 \<longleftrightarrow> distance m \<le> ln 2 / 2)) \<and>
         (\<forall>m. findBestMatch s q = Inr (Some m) \<and> ln 2 / 2 < distance m \<and> distance m \<le> 0.6 \<longrightarrow>
            \<not> isMatch (recognizeFace s (Some q))) \<and>
         ln 2 / 2 < (0.6::real)"
proof -
  have key: "confidence m = exp (- 2 * distance m) \<and> (1/2 \<le> confidence m) = (distance m \<le> ln 2 / 2) \<and>
             (distance m \<le> ln 2 / 2 \<longrightarrow> distance m \<le> 0.6)"
    if "findBestMatch s q = Inr (Some m)" for m
  proof -
    from findBestMatch_plausible[OF that] have p: "confidence m = distanceToConfidence (distance m)" "0 \<le> distance m" by auto
    then have c: "confidence m = exp (- 2 * distance m)"
      by (simp add: distanceToConfidence_def Let_def mult.commute)
    from p half_confidence [OF p(2)] have h: "(1/2 \<le> confidence m) = (distance m \<le> ln 2 / 2)"
      by simp
    from ln2_half have "distance m \<le> ln 2 / 2 \<longrightarrow> distance m \<le> 0.6"
      by linarith
    with c h show ?thesis by blast
  qed
  have defaults: "MIN_CONFIDENCE (newFaceRecognitionService now) = 0.5 \<and>
         MAX_DISTANCE (newFaceRecognitionService now) = 0.6"
    by (simp add: newFaceRecognitionService_def)
  show ?thesis
  proof (cases "findBestMatch s q")
    case (Inl e) then show ?thesis using ln2_half defaults by (simp add: recognizeFace_def)
  next
    case (Inr r)
    show ?thesis
    proof (cases r)
      case None with Inr show ?thesis using ln2_half defaults by (simp add: recognizeFace_def)
    next
      case (Some m)
      with Inr have f: "findBestMatch s q = Inr (Some m)" by simp
      from f have "isMatch (recognizeFace s (Some q)) =
          (MIN_CONFIDENCE s \<le> confidence m \<and> distance m \<le> MAX_DISTANCE s)"
        by (simp add: recognizeFace_def)
      then have im: "isMatch (recognizeFace s (Some q)) = (1/2 \<le> confidence m \<and> distance m \<le> 0.6)"
        unfolding assms by simp
      from key[OF f] have k1: "confidence m = exp (- 2 * distance m)"
        and k2: "(1/2 \<le> confidence m) = (distance m \<le> ln 2 / 2)"
        and k3: "distance m \<le> ln 2 / 2 \<longrightarrow> distance m \<le> 0.6" by auto
      from im k2 k3 have im': "isMatch (recognizeFace s (Some q)) = (distance m \<le> ln 2 / 2)" by auto
      have u: "(\<exists>m'. findBestMatch s q = Inr (Some m') \<and> P m') = P m" for P using f by auto
      have a1: "isMatch (recognizeFace s (Some q)) \<longleftrightarrow>
            (\<exists>m. findBestMatch s q = Inr (Some m) \<and> exp (- 2 * distance m) \<ge> 0.5)"
        unfolding u im' using k1 k2 by simp
      have a2: "\<forall>m. findBestMatch s q = Inr (Some m) \<longrightarrow>
            (exp (- 2 * distance m) \<ge> 0.5 \<longleftrightarrow> distance m \<le> ln 2 / 2)"
        using f k1 k2 by simp
      have a3: "\<forall>m. findBestMatch s q = Inr (Some m) \<and> ln 2 / 2 < distance m \<and> distance m \<le> 0.6 \<longrightarrow>
            \<not> isMatch (recognizeFace s (Some q))"
        using f im' by simp
      from a1 a2 a3 ln2_half defaults show ?thesis by blast
    qed
  qed
qed

lemma candidates_oneFaceService:
  "candidates oneFaceService =
     [(lit ''ann'', \<lparr>face_id = lit ''ann'', face_name = lit ''Ann'', descriptors = [[0]],
                      addedAt = Date 1, lastSeen = Some (Date 1)\<rparr>, 0, [0])]"
  by (simp add: candidates_def oneFaceService_faceDatabase)

lemma findBestMatch_oneFaceService:
  "findBestMatch oneFaceService [1 / 2] =
     Inr (Some \<lparr>personName = lit ''Ann'', confidence = distanceToConfidence (1 / 2),
                distance = 1 / 2, descriptorId = lit ''ann_0''\<rparr>)"
  unfolding findBestMatch_candidates candidates_oneFaceService
  by (simp add: considerCandidate_def embedding_def distance_half_0 belowBest_def oneFaceService_thresholds
      matchOf_def euclid_half descriptorId_ann_0)

theorem default_confidence_gate_binds_witness:
  "MIN_CONFIDENCE oneFaceService = 0.5 \<and> MAX_DISTANCE oneFaceService = 0.6 \<and>
   findBestMatch oneFaceService [1 / 2] =
     Inr (Some \<lparr>personName = lit ''Ann'', confidence = distanceToConfidence (1 / 2),
                distance = 1 / 2, descriptorId = lit ''ann_0''\<rparr>) \<and>
   ln 2 / 2 < (1 / 2 :: real) \<and> (1 / 2 :: real) \<le> 0.6 \<and>
   \<not> isMatch (recognizeFace oneFaceService (Some [1 / 2]))"
proof -
  have thresholds: "MIN_CONFIDENCE oneFaceService = 0.5" "MAX_DISTANCE oneFaceService = 0.6"
    using oneFaceService_thresholds by simp_all
  have far: "ln 2 / 2 < (1 / 2 :: real)"
    using ln_2_less_1 by simp
  from default_confidence_gate_binds [OF thresholds, of 0 "[1 / 2]"] far thresholds
  show ?thesis
    by (simp add: findBestMatch_oneFaceService)
qed

section \<open>The wrapper\<close>

lemma fold_update_append:
  "distinct (map fst fs) \<Longrightarrow> fst ` set fs \<inter> fst ` set acc = {} \<Longrightarrow> list_all validFace fs \<Longrightarrow>
   fold (\<lambda>face m. AList.update (face_id face) face m) (map snd fs) acc = acc @ fs"
proof (induction fs arbitrary: acc)
  case Nil then show ?case by simp
next
  case (Cons e fs)
  obtain k f where e: "e = (k, f)" by (cases e)
  from Cons.prems e have id: "face_id f = k" by (simp add: validFace_def)
  from Cons.prems e have notin: "k \<notin> fst ` set acc" by auto
  have upd: "AList.update k f acc = acc @ [(k, f)]" using notin
    by (induction acc) auto
  have "fold (\<lambda>face m. AList.update (face_id face) face m) (map snd fs) (acc @ [(k, f)]) = (acc @ [(k, f)]) @ fs"
    using Cons.prems e by (intro Cons.IH) auto
  then show ?case by (simp add: e id upd)
qed

lemma syncFromRecognitionService_database:
  "storeInvariant (faceDatabase (faceRecognitionService a)) \<Longrightarrow>
   database (syncFromRecognitionService a) = faceDatabase (faceRecognitionService a)"
  using fold_update_append [of "faces (faceDatabase (faceRecognitionService a))" "[]"]
  by (simp add: syncFromRecognitionService_def getKnownFaces_def getDatabaseStats_def storeInvariant_def Let_def)

lemma syncFromRecognitionService_service [simp]:
  "faceRecognitionService (syncFromRecognitionService a) = faceRecognitionService a"
  by (simp add: syncFromRecognitionService_def Let_def)

lemma syncFromRecognitionService_storage [simp]:
  "localStorage (syncFromRecognitionService a) = localStorage a"
  by (simp add: syncFromRecognitionService_def Let_def)

lemma exportDatabase_state: "snd (exportDatabase P now a) = syncFromRecognitionService a"
  by (simp add: exportDatabase_def Let_def)

lemma saveToStorage_service [simp]:
  "faceRecognitionService (saveToStorage P now a) = faceRecognitionService a"
  by (simp add: saveToStorage_def exportDatabase_def Let_def split: sum.splits)

lemma saveToStorage_database:
  "database (saveToStorage P now a) = database (syncFromRecognitionService a)"
  by (simp add: saveToStorage_def exportDatabase_def Let_def split: sum.splits)

lemma syncFromRecognitionService_empty:
  "faces (faceDatabase (faceRecognitionService a)) = [] \<Longrightarrow>
   faces (database (syncFromRecognitionService a)) = [] \<and>
   totalDescriptors (database (syncFromRecognitionService a)) = totalDescriptors (faceDatabase (faceRecognitionService a))"
  by (simp add: syncFromRecognitionService_def getKnownFaces_def getDatabaseStats_def Let_def)

lemma db_clearDatabase_service:
  "faceRecognitionService (db_clearDatabase P now a) = clearDatabase now (faceRecognitionService a)"
  by (simp add: db_clearDatabase_def)

lemma importDatabase_service_empty:
  "faces (faceDatabase (faceRecognitionService a)) = [] \<Longrightarrow> totalDescriptors (faceDatabase (faceRecognitionService a)) = 0 \<Longrightarrow>
   faces (faceDatabase (faceRecognitionService (snd (importDatabase P now t a)))) = [] \<and>
   totalDescriptors (faceDatabase (faceRecognitionService (snd (importDatabase P now t a)))) = 0"
  by (auto simp: importDatabase_def Let_def db_clearDatabase_service clearDatabase_def syncToRecognitionService_def split: sum.splits prod.splits)

lemma oneFaceApp_eq:
  "oneFaceApp = \<lparr>database = \<lparr>faces = [], totalDescriptors = 0, lastUpdated = Date 1\<rparr>,
        faceRecognitionService = oneFaceService, localStorage = None\<rparr>"
  by (simp add: oneFaceApp_def newFaceDatabase_def loadFromStorage_def)

text \<open>
  What \<^verbatim>\<open>importDatabase\<close> does with a text that parses to a document without a
  \<^verbatim>\<open>faces\<close> array: it changes nothing and returns \<open>success = False\<close> with both
  counts zero. Every such document but \<^verbatim>\<open>null\<close> reaches the explicit return with the
  message \<^verbatim>\<open>Invalid database format\<close>.
\<close>

lemma importDatabase_without_faces_array:
  assumes "JSON_parse jsonData = Inr importData" and "\<not> hasFacesArray importData"
  shows "importDatabase P now jsonData a =
          (\<lparr>success = False, facesImported = 0, descriptorsImported = 0,
            import_message = (if importData = JNull then lit ''Import failed: '' @ nullReadMessage P (lit ''faces'')
                              else lit ''Invalid database format'')\<rparr>, a)"
proof (cases importData)
  case JNull
  with assms show ?thesis by (simp add: importDatabase_def property_def importFailed_def)
next
  case (JObj kvs)
  with assms(2) have "\<not> isArray (map_of kvs (lit ''faces''))"
    by (cases "map_of kvs (lit ''faces'')" rule: isArray.cases) (simp_all add: hasFacesArray_def)
  with assms JObj show ?thesis by (simp add: importDatabase_def property_def)
qed (use assms in \<open>simp_all add: importDatabase_def property_def\<close>)

lemma importDatabase_sibling_documents:
  "importDatabase P now (Text (JNum 5)) a =
     (\<lparr>success = False, facesImported = 0, descriptorsImported = 0,
       import_message = lit ''Invalid database format''\<rparr>, a)"
  "importDatabase P now (Text (JArr [JNum 1])) a =
     (\<lparr>success = False, facesImported = 0, descriptorsImported = 0,
       import_message = lit ''Invalid database format''\<rparr>, a)"
  "importDatabase P now (Text (JObj [])) a =
     (\<lparr>success = False, facesImported = 0, descriptorsImported = 0,
       import_message = lit ''Invalid database format''\<rparr>, a)"
  "importDatabase P now (Text (JObj [(lit ''faces'', JNull)])) a =
     (\<lparr>success = False, facesImported = 0, descriptorsImported = 0,
       import_message = lit ''Invalid database format''\<rparr>, a)"
  "importDatabase P now (Text (JObj [(lit ''notFaces'', JArr [])])) a =
     (\<lparr>success = False, facesImported = 0, descriptorsImported = 0,
       import_message = lit ''Invalid database format''\<rparr>, a)"
  by (simp_all add: importDatabase_without_faces_array hasFacesArray_def lit_def)

text \<open>
  C6. The claim: a text whose parsed document has no \<^verbatim>\<open>faces\<close> array is refused with
  \<open>success = False\<close> and the message \<^verbatim>\<open>Invalid database format\<close>, with no mutation of
  the store. The code misses this for the text \<^verbatim>\<open>null\<close>: it parses, the document has
  no \<^verbatim>\<open>faces\<close> array, nothing is mutated and \<open>success\<close> is \<open>False\<close>, but
  \<^verbatim>\<open>importData.faces\<close> is read before the format check, throws on \<^verbatim>\<open>null\<close>, and
  the message returned is \<^verbatim>\<open>Import failed: \<close> followed by the engine's message.
\<close>

theorem importDatabase_null_document:
  "JSON_parse (Text JNull) = Inr JNull \<and> \<not> hasFacesArray JNull \<and>
   importDatabase stubPlatform 3 (Text JNull) oneFaceApp =
     (\<lparr>success = False, facesImported = 0, descriptorsImported = 0,
       import_message = lit ''Import failed: '' @ nullReadMessage stubPlatform (lit ''faces'')\<rparr>,
      oneFaceApp) \<and>
   import_message (fst (importDatabase stubPlatform 3 (Text JNull) oneFaceApp)) \<noteq>
     lit ''Invalid database format''"
  by (simp add: hasFacesArray_def importDatabase_def property_def importFailed_def lit_def)

theorem importDatabase_null_document_witness:
  "success (fst (importDatabase stubPlatform 3 (Text JNull) oneFaceApp)) = False \<and>
   snd (importDatabase stubPlatform 3 (Text JNull) oneFaceApp) = oneFaceApp \<and>
   import_message (fst (importDatabase stubPlatform 3 (Text JNull) oneFaceApp)) \<noteq>
     lit ''Invalid database format''"
proof -
  from importDatabase_null_document
  have outcome: "importDatabase stubPlatform 3 (Text JNull) oneFaceApp =
     (\<lparr>success = False, facesImported = 0, descriptorsImported = 0,
       import_message = lit ''Import failed: '' @ nullReadMessage stubPlatform (lit ''faces'')\<rparr>,
      oneFaceApp)"
    and other: "import_message (fst (importDatabase stubPlatform 3 (Text JNull) oneFaceApp)) \<noteq>
     lit ''Invalid database format''"
    by blast+
  have "success (fst (importDatabase stubPlatform 3 (Text JNull) oneFaceApp)) = False"
    and "snd (importDatabase stubPlatform 3 (Text JNull) oneFaceApp) = oneFaceApp"
    by (simp_all only: outcome fst_conv snd_conv ImportOutcome.simps)
  with other show ?thesis by blast
qed

section \<open>Export, clear, import\<close>

lemma float32Array_numbers: "float32Array P (JArr (map JNum desc)) = Inr desc"
proof -
  have "list_all isNum (map JNum desc)" by (induction desc) auto
  moreover have "map numOf (map JNum desc) = desc" by (induction desc) auto
  ultimately show ?thesis by (simp add: float32Array_def)
qed

lemma mapE_float32Array: "mapE (float32Array P) (map (\<lambda>desc. JArr (map JNum desc)) ds) = Inr ds"
  by (induction ds) (simp_all add: float32Array_numbers bindE_def)

lemma encodeDate_valid: "validDate d \<Longrightarrow> \<exists>s. encodeDate P d = Inr (JStr s)"
  by (cases d) (simp_all add: encodeDate_def)

lemma encodeDate_Inr: "encodeDate P d = Inr j \<Longrightarrow> \<exists>s. j = JStr s"
  by (cases d) (auto simp: encodeDate_def)

lemma property_names_distinct [simp]:
  "lit ''id'' \<noteq> lit ''name''" "lit ''id'' \<noteq> lit ''descriptors''" "lit ''id'' \<noteq> lit ''addedAt''" "lit ''id'' \<noteq> lit ''lastSeen''"
  "lit ''name'' \<noteq> lit ''descriptors''" "lit ''name'' \<noteq> lit ''addedAt''" "lit ''name'' \<noteq> lit ''lastSeen''"
  "lit ''descriptors'' \<noteq> lit ''addedAt''" "lit ''descriptors'' \<noteq> lit ''lastSeen''" "lit ''addedAt'' \<noteq> lit ''lastSeen''"
  by (simp_all add: lit_def)

lemma decodeFace_encodeFace:
  assumes "encodeFace P (k, f) = Inr j"
  shows "\<exists>f'. decodeFace P j = Imported k f' \<and> descriptors f' = descriptors f"
proof -
  from assms obtain added where added: "encodeDate P (addedAt f) = Inr added"
    by (auto simp: encodeFace_def bindE_def split: sum.splits)
  from assms added obtain seen where
    j: "j = JObj ([(lit ''id'', JStr k), (lit ''name'', JStr (face_name f)),
                   (lit ''descriptors'', JArr (map (\<lambda>desc. JArr (map JNum desc)) (descriptors f))),
                   (lit ''addedAt'', added)] @ seen)"
    and seen: "seen = [] \<or> (\<exists>v. seen = [(lit ''lastSeen'', v)])"
    by (auto simp: encodeFace_def bindE_def split: sum.splits option.splits)
  from seen show ?thesis
  proof
    assume "seen = []"
    with j show ?thesis
      by (simp add: decodeFace_def readFace_def property_def bindE_def mapDescriptors_def
          mapE_float32Array asString_def property_names_distinct [symmetric])
  next
    assume "\<exists>v. seen = [(lit ''lastSeen'', v)]"
    then obtain v where "seen = [(lit ''lastSeen'', v)]" by blast
    with j show ?thesis
      by (simp add: decodeFace_def readFace_def property_def bindE_def mapDescriptors_def
          mapE_float32Array asString_def property_names_distinct [symmetric])
  qed
qed

lemma importFaces_encoded:
  "mapE (encodeFace P) fs = Inr js \<Longrightarrow>
   \<exists>m'. importFaces P js m fi di = Inr (m', fi + length fs, di + countDescriptors fs)"
proof (induction fs arbitrary: js m fi di)
  case Nil then show ?case by (simp add: countDescriptors_def)
next
  case (Cons e fs)
  obtain k f where e: "e = (k, f)" by (cases e)
  from Cons.prems e obtain j js' where j: "encodeFace P (k, f) = Inr j" and js': "mapE (encodeFace P) fs = Inr js'" and js: "js = j # js'"
    by (auto simp: bindE_def split: sum.splits)
  from decodeFace_encodeFace [OF j] obtain f' where f': "decodeFace P j = Imported k f'" "descriptors f' = descriptors f" by blast
  from Cons.IH [OF js', of "AList.update k f' m" "fi + 1" "di + length (descriptors f')"]
  obtain m' where "importFaces P js' (AList.update k f' m) (fi + 1) (di + length (descriptors f')) = Inr (m', fi + 1 + length fs, di + length (descriptors f') + countDescriptors fs)"
    by blast
  with f' js e show ?case by (simp add: countDescriptors_Cons)
qed

lemma encodeFace_valid: "validFace (k, f) \<Longrightarrow> \<exists>j. encodeFace P (k, f) = Inr j"
proof -
  assume v: "validFace (k, f)"
  then obtain s where s: "encodeDate P (addedAt f) = Inr (JStr s)" using encodeDate_valid by (auto simp: validFace_def)
  show ?thesis
  proof (cases "lastSeen f")
    case None with s show ?thesis by (simp add: encodeFace_def bindE_def)
  next
    case (Some d)
    with v have "validDate d" by (simp add: validFace_def)
    then obtain s' where "encodeDate P d = Inr (JStr s')" using encodeDate_valid by blast
    with s Some show ?thesis by (simp add: encodeFace_def bindE_def)
  qed
qed

lemma mapE_encode_valid:
  "list_all validFace fs \<Longrightarrow>
   \<exists>js. mapE (encodeFace P) fs = Inr js"
proof (induction fs)
  case Nil then show ?case by simp
next
  case (Cons e fs)
  obtain k f where e: "e = (k, f)" by (cases e)
  with Cons.prems encodeFace_valid [of k f P] obtain j where "encodeFace P (k, f) = Inr j" by auto
  moreover from Cons obtain js where "mapE (encodeFace P) fs = Inr js" by auto
  ultimately show ?case using e by (simp add: bindE_def)
qed

lemma exportDatabase_reachable:
  assumes inv: "storeInvariant (faceDatabase (faceRecognitionService a))"
  shows "\<exists>js updated. mapE (encodeFace P) (faces (faceDatabase (faceRecognitionService a))) = Inr js \<and>
      exportDatabase P now a =
        (Inr (Text (JObj [(lit ''faces'', JArr js),
                          (lit ''totalDescriptors'', JNum (of_int (totalDescriptors (faceDatabase (faceRecognitionService a))))),
                          (lit ''lastUpdated'', updated),
                          (lit ''exportedAt'', JStr (toISOString P now))])),
         syncFromRecognitionService a)"
proof -
  from inv have db: "database (syncFromRecognitionService a) = faceDatabase (faceRecognitionService a)"
    by (rule syncFromRecognitionService_database)
  from inv obtain js where js: "mapE (encodeFace P) (faces (faceDatabase (faceRecognitionService a))) = Inr js"
    using mapE_encode_valid by (auto simp: storeInvariant_def)
  from inv obtain s where s: "encodeDate P (lastUpdated (faceDatabase (faceRecognitionService a))) = Inr (JStr s)"
    using encodeDate_valid by (auto simp: storeInvariant_def)
  show ?thesis
    by (simp add: exportDatabase_def Let_def db js s bindE_def JSON_stringify_def)
qed

lemma importDatabase_exported:
  assumes "mapE (encodeFace P) fs = Inr js"
  shows "fst (importDatabase P now (Text (JObj ((lit ''faces'', JArr js) # rest))) a) =
           \<lparr>success = True, facesImported = length fs, descriptorsImported = countDescriptors fs,
            import_message = lit ''Successfully imported '' @ decimal (length fs) @ lit '' faces with '' @
                             decimal (countDescriptors fs) @ lit '' descriptors''\<rparr>"
proof -
  from importFaces_encoded [OF assms, of "faces (database (db_clearDatabase P now a))" 0 0]
  obtain m' where "importFaces P js (faces (database (db_clearDatabase P now a))) 0 0 =
      Inr (m', length fs, countDescriptors fs)" by auto
  then show ?thesis
    by (simp add: importDatabase_def property_def Let_def)
qed

lemma stats_empty_service:
  assumes "faces (faceDatabase (faceRecognitionService a)) = []"
    and "totalDescriptors (faceDatabase (faceRecognitionService a)) = 0"
  shows "st_totalFaces (fst (getStatistics P a)) = 0 \<and> st_totalDescriptors (fst (getStatistics P a)) = 0 \<and>
         fst (db_getKnownFaces a) = []"
  using assms syncFromRecognitionService_empty [of a] by (simp add: getStatistics_def db_getKnownFaces_def Let_def)

lemma exportClearImport_reachable:
  assumes "reachable P (faceRecognitionService a)"
  shows "\<exists>outcome a'. exportClearImport P t1 t2 t3 a = (Inr outcome, a') \<and>
           success outcome \<and>
           facesImported outcome = length (faces (faceDatabase (faceRecognitionService a))) \<and>
           int (descriptorsImported outcome) = totalDescriptors (faceDatabase (faceRecognitionService a)) \<and>
           st_totalFaces (fst (getStatistics P a')) = 0 \<and>
           st_totalDescriptors (fst (getStatistics P a')) = 0 \<and>
           fst (db_getKnownFaces a') = []"
proof -
  let ?svc = "faceRecognitionService a"
  let ?fs = "faces (faceDatabase ?svc)"
  from assms have inv: "storeInvariant (faceDatabase ?svc)" by (rule reachable_storeInvariant)
  from exportDatabase_reachable [OF inv, of P t1] obtain js updated where
    js: "mapE (encodeFace P) ?fs = Inr js" and
    ex: "exportDatabase P t1 a =
        (Inr (Text (JObj [(lit ''faces'', JArr js),
                          (lit ''totalDescriptors'', JNum (of_int (totalDescriptors (faceDatabase ?svc)))),
                          (lit ''lastUpdated'', updated),
                          (lit ''exportedAt'', JStr (toISOString P t1))])),
         syncFromRecognitionService a)" by blast
  let ?doc = "Text (JObj [(lit ''faces'', JArr js),
                          (lit ''totalDescriptors'', JNum (of_int (totalDescriptors (faceDatabase ?svc)))),
                          (lit ''lastUpdated'', updated),
                          (lit ''exportedAt'', JStr (toISOString P t1))])"
  let ?a2 = "db_clearDatabase P t2 (syncFromRecognitionService a)"
  let ?r = "importDatabase P t3 ?doc ?a2"
  have eci: "exportClearImport P t1 t2 t3 a = (Inr (fst ?r), snd ?r)"
    by (simp add: exportClearImport_def ex Let_def)
  have out: "fst ?r = \<lparr>success = True, facesImported = length ?fs, descriptorsImported = countDescriptors ?fs,
            import_message = lit ''Successfully imported '' @ decimal (length ?fs) @ lit '' faces with '' @
                             decimal (countDescriptors ?fs) @ lit '' descriptors''\<rparr>"
    by (rule importDatabase_exported [OF js])
  have cleared: "faces (faceDatabase (faceRecognitionService ?a2)) = []"
      "totalDescriptors (faceDatabase (faceRecognitionService ?a2)) = 0"
    by (simp_all add: db_clearDatabase_service clearDatabase_def)
  from importDatabase_service_empty [OF cleared, of P t3 ?doc]
  have empty: "faces (faceDatabase (faceRecognitionService (snd ?r))) = []"
       "totalDescriptors (faceDatabase (faceRecognitionService (snd ?r))) = 0" by simp_all
  from inv have total: "int (countDescriptors ?fs) = totalDescriptors (faceDatabase ?svc)"
    by (simp add: storeInvariant_def)
  from stats_empty_service [OF empty, of P] eci out total show ?thesis by simp
qed

text \<open>
  C1 (as amended). From every state the store can be in, \<^verbatim>\<open>exportDatabase()\<close>, then
  \<^verbatim>\<open>clearDatabase()\<close>, then \<^verbatim>\<open>importDatabase\<close> of the exported text returns a
  successful outcome whose \<open>facesImported\<close> is the number of identities exported and
  whose \<open>descriptorsImported\<close> is the exported \<open>totalDescriptors\<close>. The import fills only
  the wrapper's view and then clears the service without writing back to it, so the
  statistics and the listing, which refill the view from the service, show no identity
  and no embedding afterwards.
\<close>

theorem exportClearImport_empties_store:
  assumes "reachable P (faceRecognitionService a)"
  shows "\<exists>outcome a'. exportClearImport P t1 t2 t3 a = (Inr outcome, a') \<and>
           success outcome \<and>
           facesImported outcome = length (faces (faceDatabase (faceRecognitionService a))) \<and>
           int (descriptorsImported outcome) = totalDescriptors (faceDatabase (faceRecognitionService a)) \<and>
           st_totalFaces (fst (getStatistics P a')) = 0 \<and>
           st_totalDescriptors (fst (getStatistics P a')) = 0 \<and>
           fst (db_getKnownFaces a') = []"
  using assms by (rule exportClearImport_reachable)

theorem exportClearImport_empties_store_witness:
  "reachable stubPlatform (faceRecognitionService oneFaceApp) \<and>
   length (faces (faceDatabase (faceRecognitionService oneFaceApp))) = 1 \<and>
   totalDescriptors (faceDatabase (faceRecognitionService oneFaceApp)) = 1 \<and>
   (case fst (exportClearImport stubPlatform 2 3 4 oneFaceApp) of
      Inr outcome \<Rightarrow> success outcome \<and> facesImported outcome = 1 \<and> descriptorsImported outcome = 1
    | Inl e \<Rightarrow> False) \<and>
   st_totalFaces (fst (getStatistics stubPlatform (snd (exportClearImport stubPlatform 2 3 4 oneFaceApp)))) = 0 \<and>
   fst (db_getKnownFaces (snd (exportClearImport stubPlatform 2 3 4 oneFaceApp))) = []"
proof -
  have r: "reachable stubPlatform (faceRecognitionService oneFaceApp)"
    using reachable_oneFaceService by (simp add: oneFaceApp_eq)
  from exportClearImport_empties_store [OF r, of 2 3 4] r show ?thesis
    by (auto simp: oneFaceApp_eq oneFaceService_faceDatabase)
qed

text \<open>
  C1 as stated fails on the store holding \<open>Ann\<close> with one embedding: the statistics show
  one identity and one embedding before the round trip and none after it.
\<close>

theorem exportClearImport_not_restored:
  "faces (faceDatabase (faceRecognitionService oneFaceApp)) \<noteq> [] \<and>
   st_totalFaces (fst (getStatistics stubPlatform oneFaceApp)) = 1 \<and>
   st_totalDescriptors (fst (getStatistics stubPlatform oneFaceApp)) = 1 \<and>
   st_totalFaces (fst (getStatistics stubPlatform (snd (exportClearImport stubPlatform 2 3 4 oneFaceApp)))) = 0 \<and>
   st_totalDescriptors (fst (getStatistics stubPlatform (snd (exportClearImport stubPlatform 2 3 4 oneFaceApp)))) = 0"
proof -
  have inv: "storeInvariant (faceDatabase (faceRecognitionService oneFaceApp))"
    using reachable_storeInvariant [OF reachable_oneFaceService] by (simp add: oneFaceApp_eq)
  have before: "st_totalDescriptors (fst (getStatistics stubPlatform oneFaceApp)) = 1 \<and>
                st_totalFaces (fst (getStatistics stubPlatform oneFaceApp)) = 1"
    using syncFromRecognitionService_database [OF inv]
    by (simp add: getStatistics_def Let_def oneFaceApp_eq oneFaceService_faceDatabase)
  have nonempty: "faces (faceDatabase (faceRecognitionService oneFaceApp)) \<noteq> []"
    by (simp add: oneFaceApp_eq oneFaceService_faceDatabase)
  have r: "reachable stubPlatform (faceRecognitionService oneFaceApp)"
    using reachable_oneFaceService by (simp add: oneFaceApp_eq)
  from exportClearImport_reachable [OF r, of 2 3 4] before nonempty show ?thesis by auto
qed

section \<open>Training\<close>

lemma map_of_update_same: "map_of (AList.update k v al) k = Some v"
  by (simp add: update_conv')

lemma storedCount_add_Some:
  "storedCount (snd (addKnownFace P now name (Some d) s)) (generateFaceId P name) = storedCount s (generateFaceId P name) + 1"
  by (simp add: storedCount_def addKnownFace_def Let_def update_conv' split: option.splits)

lemma addKnownFace_fst: "fst (addKnownFace P now name ex s) = (ex \<noteq> None)"
  by (simp add: addKnownFace_def Let_def split: option.splits)

lemma addKnownFace_None: "snd (addKnownFace P now name None s) = s"
  by (simp add: addKnownFace_def)

lemma trainStep_eq:
  assumes inv: "storeInvariant (faceDatabase (faceRecognitionService a))"
  shows "\<exists>a'. trainStep P now name (generateFaceId P name) ex n a =
           (storedCount (faceRecognitionService a') (generateFaceId P name) \<ge> MAX_DESCRIPTORS_PER_FACE,
            (if ex = None then n else n + 1), a') \<and>
         storeInvariant (faceDatabase (faceRecognitionService a')) \<and>
         database a' = faceDatabase (faceRecognitionService a') \<and>
         storedCount (faceRecognitionService a') (generateFaceId P name) =
           storedCount (faceRecognitionService a) (generateFaceId P name) + (if ex = None then 0 else 1)"
proof -
  let ?svc = "snd (addKnownFace P now name ex (faceRecognitionService a))"
  let ?a' = "syncFromRecognitionService (a\<lparr>faceRecognitionService := ?svc\<rparr>)"
  have inv': "storeInvariant (faceDatabase ?svc)" using inv by (rule storeInvariant_addKnownFace)
  then have db: "database ?a' = faceDatabase ?svc" using syncFromRecognitionService_database [of "a\<lparr>faceRecognitionService := ?svc\<rparr>"] by simp
  have cnt: "storedCount ?svc (generateFaceId P name) =
           storedCount (faceRecognitionService a) (generateFaceId P name) + (if ex = None then 0 else 1)"
    by (cases ex) (simp_all add: addKnownFace_None storedCount_add_Some)
  have "trainStep P now name (generateFaceId P name) ex n a =
           (storedCount ?svc (generateFaceId P name) \<ge> MAX_DESCRIPTORS_PER_FACE,
            (if ex = None then n else n + 1), ?a')"
    by (simp add: trainStep_def Let_def db storedCount_def addKnownFace_fst MAX_DESCRIPTORS_PER_FACE_def split: option.splits)
  with inv' db cnt show ?thesis by (intro exI [of _ ?a']) simp
qed

lemma trainLoop_bound:
  assumes "storeInvariant (faceDatabase (faceRecognitionService a))"
  shows "storeInvariant (faceDatabase (faceRecognitionService (snd (trainLoop P now name (generateFaceId P name) ds n a)))) \<and>
     storedCount (faceRecognitionService (snd (trainLoop P now name (generateFaceId P name) ds n a))) (generateFaceId P name)
       \<le> max MAX_DESCRIPTORS_PER_FACE (storedCount (faceRecognitionService a) (generateFaceId P name) + 1) \<and>
     (storedCount (faceRecognitionService a) (generateFaceId P name) < MAX_DESCRIPTORS_PER_FACE \<longrightarrow>
        storedCount (faceRecognitionService (snd (trainLoop P now name (generateFaceId P name) ds n a))) (generateFaceId P name)
          \<le> MAX_DESCRIPTORS_PER_FACE) \<and>
     fst (trainLoop P now name (generateFaceId P name) ds n a) + storedCount (faceRecognitionService a) (generateFaceId P name) =
       n + storedCount (faceRecognitionService (snd (trainLoop P now name (generateFaceId P name) ds n a))) (generateFaceId P name)"
  using assms
proof (induction ds arbitrary: n a)
  case Nil
  then show ?case by simp
next
  case (Cons x ds)
  show ?case
  proof (cases x)
    case None
    with Cons show ?thesis by simp
  next
    case (Some ex)
    let ?k = "generateFaceId P name"
    from trainStep_eq [OF Cons.prems, of P now name ex n] obtain a' where
      step: "trainStep P now name ?k ex n a =
           (storedCount (faceRecognitionService a') ?k \<ge> MAX_DESCRIPTORS_PER_FACE, (if ex = None then n else n + 1), a')"
      and inv': "storeInvariant (faceDatabase (faceRecognitionService a'))"
      and cnt: "storedCount (faceRecognitionService a') ?k = storedCount (faceRecognitionService a) ?k + (if ex = None then 0 else 1)"
      by blast
    show ?thesis
    proof (cases "storedCount (faceRecognitionService a') ?k \<ge> MAX_DESCRIPTORS_PER_FACE")
      case True
      with step have "trainLoop P now name ?k (x # ds) n a = ((if ex = None then n else n + 1), a')"
        by (simp add: Some)
      with inv' cnt True show ?thesis by (auto simp: MAX_DESCRIPTORS_PER_FACE_def)
    next
      case False
      with step have "trainLoop P now name ?k (x # ds) n a = trainLoop P now name ?k ds (if ex = None then n else n + 1) a'"
        by (simp add: Some)
      with Cons.IH [OF inv', of "if ex = None then n else n + 1"] cnt False show ?thesis
        by (auto simp: MAX_DESCRIPTORS_PER_FACE_def)
    qed
  qed
qed

lemma trainLoop_all_good:
  assumes "storeInvariant (faceDatabase (faceRecognitionService a))"
  shows "storedCount (faceRecognitionService (snd (trainLoop P now name (generateFaceId P name) (map (\<lambda>d. Some (Some d)) ds) n a))) (generateFaceId P name)
       = (let c = storedCount (faceRecognitionService a) (generateFaceId P name) in
          if ds = [] then c else if c < MAX_DESCRIPTORS_PER_FACE then min MAX_DESCRIPTORS_PER_FACE (c + length ds) else c + 1)"
  using assms
proof (induction ds arbitrary: n a)
  case Nil
  then show ?case by simp
next
  case (Cons d ds)
  let ?k = "generateFaceId P name"
  from trainStep_eq [OF Cons.prems, of P now name "Some d" n] obtain a' where
      step: "trainStep P now name ?k (Some d) n a =
           (storedCount (faceRecognitionService a') ?k \<ge> MAX_DESCRIPTORS_PER_FACE, n + 1, a')"
      and inv': "storeInvariant (faceDatabase (faceRecognitionService a'))"
      and cnt: "storedCount (faceRecognitionService a') ?k = storedCount (faceRecognitionService a) ?k + 1"
    by auto
  show ?case
  proof (cases "storedCount (faceRecognitionService a') ?k \<ge> MAX_DESCRIPTORS_PER_FACE")
    case True
    with step have "trainLoop P now name ?k (map (\<lambda>d. Some (Some d)) (d # ds)) n a = (n + 1, a')"
      by simp
    with cnt True show ?thesis by (auto simp: MAX_DESCRIPTORS_PER_FACE_def Let_def)
  next
    case False
    with step have "trainLoop P now name ?k (map (\<lambda>d. Some (Some d)) (d # ds)) n a = trainLoop P now name ?k (map (\<lambda>d. Some (Some d)) ds) (n + 1) a'"
      by simp
    with Cons.IH [OF inv', of "n + 1"] cnt False show ?thesis
      by (auto simp: MAX_DESCRIPTORS_PER_FACE_def Let_def)
  qed
qed

lemma trainFace_counts:
  assumes inv: "storeInvariant (faceDatabase (faceRecognitionService a))" and "ds \<noteq> []"
  shows "totalSamples (fst (trainFace P now name ds a)) =
           storedCount (faceRecognitionService (snd (trainLoop P now name (generateFaceId P name) ds 0 a))) (generateFaceId P name) \<and>
         samplesAdded (fst (trainFace P now name ds a)) = fst (trainLoop P now name (generateFaceId P name) ds 0 a) \<and>
         faceRecognitionService (snd (trainFace P now name ds a)) =
           faceRecognitionService (snd (trainLoop P now name (generateFaceId P name) ds 0 a))"
proof -
  let ?r = "trainLoop P now name (generateFaceId P name) ds 0 a"
  from trainLoop_bound [OF inv, of P now name ds 0]
  have inv': "storeInvariant (faceDatabase (faceRecognitionService (snd ?r)))" by simp
  have "database (saveToStorage P now (syncFromRecognitionService (snd ?r))) = faceDatabase (faceRecognitionService (snd ?r))"
    using syncFromRecognitionService_database [OF inv'] syncFromRecognitionService_database [of "syncFromRecognitionService (snd ?r)"] inv'
    by (simp add: saveToStorage_database)
  with assms(2) show ?thesis
    by (simp add: trainFace_def db_generateFaceId_def generateFaceId_def Let_def storedCount_def)
qed

lemma emptyApp_eq:
  "emptyApp = \<lparr>database = \<lparr>faces = [], totalDescriptors = 0, lastUpdated = Date 0\<rparr>,
        faceRecognitionService = newFaceRecognitionService 0, localStorage = None\<rparr>"
  by (simp add: emptyApp_def newFaceDatabase_def loadFromStorage_def)

lemma storeInvariant_emptyApp: "storeInvariant (faceDatabase (faceRecognitionService emptyApp))"
  using reachable_storeInvariant [OF reachable.constructed [of stubPlatform 0]] by (simp add: emptyApp_eq)

lemma storedCount_emptyApp: "storedCount (faceRecognitionService emptyApp) k = 0"
  by (simp add: emptyApp_eq storedCount_def newFaceRecognitionService_def)

lemma trainFace_below_limit:
  assumes inv: "storeInvariant (faceDatabase (faceRecognitionService a))"
    and below: "storedCount (faceRecognitionService a) (generateFaceId P name) < MAX_DESCRIPTORS_PER_FACE"
    and "ds \<noteq> []"
  shows "totalSamples (fst (trainFace P now name ds a)) \<le> MAX_DESCRIPTORS_PER_FACE \<and>
         storedCount (faceRecognitionService (snd (trainFace P now name ds a))) (generateFaceId P name) \<le> MAX_DESCRIPTORS_PER_FACE \<and>
         samplesAdded (fst (trainFace P now name ds a)) + storedCount (faceRecognitionService a) (generateFaceId P name) =
           totalSamples (fst (trainFace P now name ds a))"
  using trainFace_counts [OF inv \<open>ds \<noteq> []\<close>, of P now name] trainLoop_bound [OF inv, of P now name ds 0] below
  by simp

lemma trainFace_fifteen_fresh:
  assumes inv: "storeInvariant (faceDatabase (faceRecognitionService a))"
    and fresh: "storedCount (faceRecognitionService a) (generateFaceId P name) = 0"
    and "length ds = 15"
  shows "totalSamples (fst (trainFace P now name (map (\<lambda>d. Some (Some d)) ds) a)) = 10 \<and>
         samplesAdded (fst (trainFace P now name (map (\<lambda>d. Some (Some d)) ds) a)) = 10"
proof -
  from assms(3) have ne: "ds \<noteq> []" "map (\<lambda>d. Some (Some d)) ds \<noteq> []" by auto
  from trainLoop_all_good [OF inv, of P now name ds 0] fresh ne assms(3)
  have c: "storedCount (faceRecognitionService (snd (trainLoop P now name (generateFaceId P name) (map (\<lambda>d. Some (Some d)) ds) 0 a))) (generateFaceId P name) = 10"
    by (simp add: MAX_DESCRIPTORS_PER_FACE_def Let_def)
  from trainLoop_bound [OF inv, of P now name "map (\<lambda>d. Some (Some d)) ds" 0] c fresh
  have "fst (trainLoop P now name (generateFaceId P name) (map (\<lambda>d. Some (Some d)) ds) 0 a) = 10" by simp
  with c trainFace_counts [OF inv ne(2), of P now name] show ?thesis by simp
qed

lemma replicate_good: "replicate n (Some (Some d)) = map (\<lambda>d. Some (Some d)) (replicate n d)"
  by simp

lemma fullyTrainedApp_service:
  "storeInvariant (faceDatabase (faceRecognitionService fullyTrainedApp)) \<and>
   storedCount (faceRecognitionService fullyTrainedApp) (lit ''ann'') = 10"
proof -
  let ?ds = "replicate 10 (Some (Some [0::real]))"
  have ne: "?ds \<noteq> []" by simp
  note inv = storeInvariant_emptyApp
  from trainLoop_bound [OF inv, of stubPlatform 1 "lit ''Ann''" ?ds 0] trainFace_counts [OF inv ne, of stubPlatform 1 "lit ''Ann''"]
  have i: "storeInvariant (faceDatabase (faceRecognitionService fullyTrainedApp))"
    by (simp add: fullyTrainedApp_def)
  from trainLoop_all_good [OF inv, of stubPlatform 1 "lit ''Ann''" "replicate 10 [0]" 0]
  have "storedCount (faceRecognitionService (snd (trainLoop stubPlatform 1 (lit ''Ann'') (generateFaceId stubPlatform (lit ''Ann'')) ?ds 0 emptyApp))) (generateFaceId stubPlatform (lit ''Ann'')) = 10"
    by (simp add: storedCount_emptyApp MAX_DESCRIPTORS_PER_FACE_def Let_def)
  with trainFace_counts [OF inv ne, of stubPlatform 1 "lit ''Ann''"]
  have "storedCount (faceRecognitionService fullyTrainedApp) (lit ''ann'') = 10"
    by (simp add: fullyTrainedApp_def generateFaceId_Ann)
  with i show ?thesis by simp
qed

text \<open>
  C2. \<^verbatim>\<open>trainFace\<close> checks the limit only after an add. For an identity that starts
  below \<open>MAX_DESCRIPTORS_PER_FACE\<close> the loop therefore stops at ten
  (\<open>trainFace_below_limit\<close>), and fifteen good samples for a fresh identity leave ten
  stored with \<open>samplesAdded = 10\<close> (\<open>trainFace_fifteen_fresh\<close>). For an identity that
  already holds ten, here \<open>Ann\<close> after a first training with ten good samples, a
  second call with one good sample stores an eleventh embedding.
\<close>

theorem trainFace_exceeds_cap:
  "storedCount (faceRecognitionService fullyTrainedApp) (generateFaceId stubPlatform (lit ''Ann'')) = 10 \<and>
   totalSamples (fst (trainFace stubPlatform 2 (lit ''Ann'') [Some (Some [0])] fullyTrainedApp)) = 11 \<and>
   samplesAdded (fst (trainFace stubPlatform 2 (lit ''Ann'') [Some (Some [0])] fullyTrainedApp)) = 1 \<and>
   storedCount (faceRecognitionService (snd (trainFace stubPlatform 2 (lit ''Ann'') [Some (Some [0])] fullyTrainedApp)))
     (generateFaceId stubPlatform (lit ''Ann'')) = 11"
proof -
  from fullyTrainedApp_service have inv: "storeInvariant (faceDatabase (faceRecognitionService fullyTrainedApp))"
    and ten: "storedCount (faceRecognitionService fullyTrainedApp) (generateFaceId stubPlatform (lit ''Ann'')) = 10"
    by (simp_all add: generateFaceId_Ann)
  have ne: "[Some (Some [0::real])] \<noteq> []" by simp
  from trainLoop_all_good [OF inv, of stubPlatform 2 "lit ''Ann''" "[[0]]" 0] ten
  have c: "storedCount (faceRecognitionService (snd (trainLoop stubPlatform 2 (lit ''Ann'') (generateFaceId stubPlatform (lit ''Ann'')) [Some (Some [0])] 0 fullyTrainedApp))) (generateFaceId stubPlatform (lit ''Ann'')) = 11"
    by (simp add: MAX_DESCRIPTORS_PER_FACE_def Let_def)
  from trainLoop_bound [OF inv, of stubPlatform 2 "lit ''Ann''" "[Some (Some [0])]" 0] c ten
  have n: "fst (trainLoop stubPlatform 2 (lit ''Ann'') (generateFaceId stubPlatform (lit ''Ann'')) [Some (Some [0])] 0 fullyTrainedApp) = 1"
    by simp
  from trainFace_counts [OF inv ne, of stubPlatform 2 "lit ''Ann''"] c n ten show ?thesis
    by simp
qed

end
